theory Spec2Isabelle
  imports Main "HOL-Library.Product_Lexorder"
begin

section \<open>Times of day and timetable rows\<close>

text \<open>
  A Python \<open>datetime.time\<close> carries an hour, a minute, a second and a microsecond.
  Two naive times are compared as the tuples \<open>(hour, minute, second, microsecond)\<close>,
  lexicographically; the comparison never raises.
\<close>

record time =
  hour :: nat
  minute :: nat
  second :: nat
  microsecond :: nat

text \<open>A \<open>datetime.datetime\<close> has the fields of a time and a calendar date.\<close>

record datetime = time +
  year :: nat
  month :: nat
  day :: nat

definition time_of :: "datetime \<Rightarrow> time" where
  \<comment> \<open>\<open>ts_dt.time()\<close>\<close>
  "time_of dt = \<lparr>hour = hour dt, minute = minute dt, second = second dt,
                 microsecond = microsecond dt\<rparr>"

definition time_key :: "time \<Rightarrow> nat \<times> nat \<times> nat \<times> nat" where
  "time_key t = (hour t, minute t, second t, microsecond t)"

definition time_lt :: "time \<Rightarrow> time \<Rightarrow> bool" where
  \<comment> \<open>\<open>a < b\<close>\<close>
  "time_lt a b = (time_key a < time_key b)"

definition time_le :: "time \<Rightarrow> time \<Rightarrow> bool" where
  \<comment> \<open>\<open>a <= b\<close>\<close>
  "time_le a b = (time_key a \<le> time_key b)"

definition time_ge :: "time \<Rightarrow> time \<Rightarrow> bool" where
  \<comment> \<open>\<open>a >= b\<close>\<close>
  "time_ge a b = (time_key b \<le> time_key a)"

text \<open>
  One element of the list that \<open>load_timetable\<close> returns: the dictionary with the keys
  \<open>"period"\<close>, \<open>"start"\<close> and \<open>"end"\<close> (the values that \<open>load_timetable\<close> calls
  \<open>start_t\<close> and \<open>end_t\<close>).
\<close>

record period_rec =
  period :: int
  start_t :: time
  end_t :: time

section \<open>Period resolution\<close>

text \<open>
  \<open>resolve_period_for\<close> first reads the timetable from the database. The database is
  outside the program text, so the list that \<open>load_timetable()\<close> returned is the first
  argument here; everything after that line is translated statement by statement.
  The two \<open>for\<close> loops return at the first element (respectively the first index of
  \<open>range(len(ttable)-1)\<close>) that passes the test, which is what \<open>find\<close> computes.
  \<open>ttable[0]\<close> and \<open>ttable[-1]\<close> are only evaluated on a non-empty list.
\<close>

definition resolve_period_for :: "period_rec list \<Rightarrow> datetime \<Rightarrow> period_rec option" where
  "resolve_period_for ttable ts_dt =
     (if ttable = [] then None
      else
        let t = time_of ts_dt in
        case find (\<lambda>rec. time_le (start_t rec) t \<and> time_lt t (end_t rec)) ttable of
          Some rec \<Rightarrow> Some rec
        | None \<Rightarrow>
            (let first_rec = ttable ! 0;
                 last_rec = last ttable
             in
               if time_lt t (start_t first_rec) then Some first_rec
               else if time_ge t (end_t last_rec) then Some last_rec
               else
                 (case find (\<lambda>i. time_le (end_t (ttable ! i)) t
                                  \<and> time_lt t (start_t (ttable ! (i + 1))))
                            [0 ..< length ttable - 1] of
                    Some i \<Rightarrow> Some (ttable ! (i + 1))
                  | None \<Rightarrow> Some last_rec)))"

text \<open>
  The timetable the specification speaks about: non-empty, every interval with its start
  before its end, the intervals in ascending order of their start, and no two of them
  overlapping (as half-open intervals). Nothing is assumed about the period numbers.
\<close>

definition overlaps :: "period_rec \<Rightarrow> period_rec \<Rightarrow> bool" where
  "overlaps a b = (time_lt (start_t a) (end_t b) \<and> time_lt (start_t b) (end_t a))"

definition well_formed :: "period_rec list \<Rightarrow> bool" where
  "well_formed ttable =
     (ttable \<noteq> []
      \<and> list_all (\<lambda>r. time_lt (start_t r) (end_t r)) ttable
      \<and> sorted_wrt (\<lambda>a b. time_le (start_t a) (start_t b)) ttable
      \<and> sorted_wrt (\<lambda>a b. \<not> overlaps a b) ttable)"

text \<open>The timetable of the specification's concrete scenario.\<close>

definition hm :: "nat \<Rightarrow> nat \<Rightarrow> time" where
  "hm h m = \<lparr>hour = h, minute = m, second = 0, microsecond = 0\<rparr>"

definition at_time :: "nat \<Rightarrow> nat \<Rightarrow> datetime" where
  "at_time h m = \<lparr>hour = h, minute = m, second = 0, microsecond = 0,
                  year = 2025, month = 4, day = 8\<rparr>"

definition school_day :: "period_rec list" where
  "school_day =
     [\<lparr>period = 1, start_t = hm 8 50, end_t = hm 10 30\<rparr>,
      \<lparr>period = 2, start_t = hm 10 35, end_t = hm 12 15\<rparr>,
      \<lparr>period = 3, start_t = hm 13 0, end_t = hm 14 40\<rparr>]"

definition adjacent_day :: "period_rec list" where
  "adjacent_day =
     [\<lparr>period = 1, start_t = hm 9 0, end_t = hm 10 0\<rparr>,
      \<lparr>period = 2, start_t = hm 10 0, end_t = hm 11 0\<rparr>]"

section \<open>Strings\<close>

text \<open>
  A Python \<open>str\<close> is modelled as a \<open>string\<close>, so the texts covered are those whose
  code points lie below 256. On these, \<open>str.isspace\<close> (which \<open>str.strip()\<close> uses) and the
  regular-expression class \<open>\s\<close> hold for the code points 9 to 13, 28 to 32, 133 and 160,
  and the class \<open>\d\<close> for the ten ASCII digits.
\<close>

datatype error = ValueError

definition is_space :: "char \<Rightarrow> bool" where
  "is_space c =
     (let n = (of_char c :: nat)
      in (9 \<le> n \<and> n \<le> 13) \<or> (28 \<le> n \<and> n \<le> 32) \<or> n = 133 \<or> n = 160)"

definition in_range :: "char \<Rightarrow> char \<Rightarrow> char \<Rightarrow> bool" where
  \<comment> \<open>the character class \<open>[lo-hi]\<close>\<close>
  "in_range lo hi c = ((of_char lo :: nat) \<le> of_char c \<and> (of_char c :: nat) \<le> of_char hi)"

definition is_digit :: "char \<Rightarrow> bool" where
  \<comment> \<open>the character class \<open>\d\<close>\<close>
  "is_digit = in_range CHR ''0'' CHR ''9''"

definition lit :: "char \<Rightarrow> char \<Rightarrow> bool" where
  \<comment> \<open>a single literal character of a pattern\<close>
  "lit a c = (c = a)"

definition strip :: "string \<Rightarrow> string" where
  \<comment> \<open>\<open>s.strip()\<close>\<close>
  "strip s = rev (dropWhile is_space (rev (dropWhile is_space s)))"

definition replace :: "char \<Rightarrow> char \<Rightarrow> string \<Rightarrow> string" where
  \<comment> \<open>\<open>s.replace(old, new)\<close> for one-character \<open>old\<close> and \<open>new\<close>: every occurrence\<close>
  "replace old new s = map (\<lambda>c. if c = old then new else c) s"

fun split :: "char \<Rightarrow> string \<Rightarrow> string list" where
  \<comment> \<open>\<open>s.split(sep)\<close>: one more part than there are separators\<close>
  "split sep [] = [[]]"
| "split sep (c # cs) =
     (if c = sep then [] # split sep cs
      else case split sep cs of
             p # ps \<Rightarrow> (c # p) # ps
           | [] \<Rightarrow> [[c]])"

definition zfill :: "nat \<Rightarrow> string \<Rightarrow> string" where
  \<comment> \<open>\<open>s.zfill(width)\<close>: zeros on the left, after a leading sign if there is one\<close>
  "zfill width s =
     (if width \<le> length s then s
      else case s of
             [] \<Rightarrow> replicate width CHR ''0''
           | c # cs \<Rightarrow>
               if c = CHR ''+'' \<or> c = CHR ''-''
               then c # replicate (width - length s) CHR ''0'' @ cs
               else replicate (width - length s) CHR ''0'' @ s)"

definition int_of :: "string \<Rightarrow> nat" where
  \<comment> \<open>\<open>int(s)\<close> on a text of decimal digits\<close>
  "int_of s = foldl (\<lambda>n c. 10 * n + (of_char c - 48)) 0 s"

section \<open>The library functions \<open>datetime.strptime\<close> and \<open>datetime.strftime\<close>\<close>

text \<open>
  The program parses and prints through the standard library. \<open>datetime.strptime\<close> is
  modelled after CPython's \<open>_strptime\<close> module. That module turns the format into a
  regular expression: each directive becomes a named group

  \<^item> \<open>%Y\<close>: \<open>\d\d\d\d\<close>
  \<^item> \<open>%m\<close>: \<open>1[0-2]|0[1-9]|[1-9]\<close>
  \<^item> \<open>%d\<close>: \<open>3[0-1]|[1-2]\d|0[1-9]|[1-9]| [1-9]\<close>
  \<^item> \<open>%H\<close>: \<open>2[0-3]|[0-1]\d|\d\<close>
  \<^item> \<open>%M\<close>: \<open>[0-5]\d|\d\<close>
  \<^item> \<open>%S\<close>: \<open>6[0-1]|[0-5]\d|\d\<close>
  \<^item> \<open>%f\<close>: \<open>[0-9]{1,6}\<close>

  a run of whitespace in the format becomes \<open>\s+\<close>, and every other character stands
  for itself. The expression is matched at the start of the text (\<open>re.match\<close>); the call
  raises \<open>ValueError\<close> when there is no match, when the match ends before the end of the
  text, and when the values found are not a date and time (year 1 to 9999, a day that
  exists in its month, second at most 59).

  A format is given here as its list of tokens. An alternative of a group is a list of
  character classes; \<open>re_match\<close> returns every way to match, in the order in which a
  backtracking matcher tries them (alternatives from left to right, the greedy \<open>\s+\<close> and
  \<open>{1,6}\<close> longest first), so that the head of the list is the match \<open>re.match\<close> returns.
\<close>

datatype directive = Dir_Y | Dir_m | Dir_d | Dir_H | Dir_M | Dir_S | Dir_f

datatype tok = Dir directive | Lit char | Spaces

fun classes :: "(char \<Rightarrow> bool) list \<Rightarrow> string \<Rightarrow> (string \<times> string) option" where
  "classes [] s = Some ([], s)"
| "classes (P # Ps) [] = None"
| "classes (P # Ps) (c # cs) =
     (if P c then map_option (\<lambda>(g, r). (c # g, r)) (classes Ps cs) else None)"

fun alternatives :: "(char \<Rightarrow> bool) list list \<Rightarrow> string \<Rightarrow> (string \<times> string) list" where
  "alternatives [] s = []"
| "alternatives (a # as) s =
     (case classes a s of
        None \<Rightarrow> alternatives as s
      | Some g \<Rightarrow> g # alternatives as s)"

fun directive_re :: "directive \<Rightarrow> (char \<Rightarrow> bool) list list" where
  "directive_re Dir_Y = [[is_digit, is_digit, is_digit, is_digit]]"
| "directive_re Dir_m =
     [[lit CHR ''1'', in_range CHR ''0'' CHR ''2''],
      [lit CHR ''0'', in_range CHR ''1'' CHR ''9''],
      [in_range CHR ''1'' CHR ''9'']]"
| "directive_re Dir_d =
     [[lit CHR ''3'', in_range CHR ''0'' CHR ''1''],
      [in_range CHR ''1'' CHR ''2'', is_digit],
      [lit CHR ''0'', in_range CHR ''1'' CHR ''9''],
      [in_range CHR ''1'' CHR ''9''],
      [lit CHR '' '', in_range CHR ''1'' CHR ''9'']]"
| "directive_re Dir_H =
     [[lit CHR ''2'', in_range CHR ''0'' CHR ''3''],
      [in_range CHR ''0'' CHR ''1'', is_digit],
      [is_digit]]"
| "directive_re Dir_M =
     [[in_range CHR ''0'' CHR ''5'', is_digit],
      [is_digit]]"
| "directive_re Dir_S =
     [[lit CHR ''6'', in_range CHR ''0'' CHR ''1''],
      [in_range CHR ''0'' CHR ''5'', is_digit],
      [is_digit]]"
| "directive_re Dir_f =
     [[is_digit, is_digit, is_digit, is_digit, is_digit, is_digit],
      [is_digit, is_digit, is_digit, is_digit, is_digit],
      [is_digit, is_digit, is_digit, is_digit],
      [is_digit, is_digit, is_digit],
      [is_digit, is_digit],
      [is_digit]]"

definition spaces :: "string \<Rightarrow> string list" where
  \<comment> \<open>\<open>\s+\<close>: what is left after one or more whitespace characters, longest run first\<close>
  "spaces s = map (\<lambda>k. drop k s) (rev [1 ..< Suc (length (takeWhile is_space s))])"

text \<open>
  The values \<open>_strptime\<close> reads from the groups are collected in a record of the shape of
  a \<open>datetime\<close>; the fraction is padded with zeros to six digits before it is read.
\<close>

fun store :: "directive \<Rightarrow> string \<Rightarrow> datetime \<Rightarrow> datetime" where
  "store Dir_Y g found = found\<lparr>year := int_of g\<rparr>"
| "store Dir_m g found = found\<lparr>month := int_of g\<rparr>"
| "store Dir_d g found = found\<lparr>day := int_of g\<rparr>"
| "store Dir_H g found = found\<lparr>hour := int_of g\<rparr>"
| "store Dir_M g found = found\<lparr>minute := int_of g\<rparr>"
| "store Dir_S g found = found\<lparr>second := int_of g\<rparr>"
| "store Dir_f g found = found\<lparr>microsecond := int_of (g @ replicate (6 - length g) CHR ''0'')\<rparr>"

fun re_match :: "tok list \<Rightarrow> string \<Rightarrow> datetime \<Rightarrow> (datetime \<times> string) list" where
  "re_match [] s found = [(found, s)]"
| "re_match (Lit c # ts) s found =
     (case s of [] \<Rightarrow> [] | a # r \<Rightarrow> if a = c then re_match ts r found else [])"
| "re_match (Spaces # ts) s found =
     concat (map (\<lambda>r. re_match ts r found) (spaces s))"
| "re_match (Dir d # ts) s found =
     concat (map (\<lambda>(g, r). re_match ts r (store d g found)) (alternatives (directive_re d) s))"

definition is_leap :: "nat \<Rightarrow> bool" where
  "is_leap y = (y mod 4 = 0 \<and> (y mod 100 \<noteq> 0 \<or> y mod 400 = 0))"

definition days_in_month :: "nat \<Rightarrow> nat \<Rightarrow> nat" where
  "days_in_month y m =
     (if m = 2 then (if is_leap y then 29 else 28)
      else if m = 4 \<or> m = 6 \<or> m = 9 \<or> m = 11 then 30 else 31)"

definition valid_datetime :: "datetime \<Rightarrow> bool" where
  \<comment> \<open>the argument check of the \<open>datetime\<close> constructor\<close>
  "valid_datetime dt =
     (1 \<le> year dt \<and> year dt \<le> 9999
      \<and> 1 \<le> month dt \<and> month dt \<le> 12
      \<and> 1 \<le> day dt \<and> day dt \<le> days_in_month (year dt) (month dt)
      \<and> hour dt \<le> 23 \<and> minute dt \<le> 59 \<and> second dt \<le> 59
      \<and> microsecond dt \<le> 999999)"

definition defaults :: datetime where
  \<comment> \<open>the values of the fields that the format does not mention\<close>
  "defaults = \<lparr>hour = 0, minute = 0, second = 0, microsecond = 0,
               year = 1900, month = 1, day = 1\<rparr>"

definition strptime :: "string \<Rightarrow> tok list \<Rightarrow> error + datetime" where
  "strptime data_string format =
     (case re_match format data_string defaults of
        [] \<Rightarrow> Inl ValueError
      | (found, rest) # _ \<Rightarrow>
          if rest \<noteq> [] then Inl ValueError
          else if valid_datetime found then Inr found
          else Inl ValueError)"

text \<open>The formats of the program: \<open>"%H:%M"\<close>, \<open>"%H:%M:%S"\<close> and the date part \<open>"%Y-%m-%d "\<close>.\<close>

definition fmt_HM :: "tok list" where
  "fmt_HM = [Dir Dir_H, Lit CHR '':'', Dir Dir_M]"

definition fmt_HMS :: "tok list" where
  "fmt_HMS = [Dir Dir_H, Lit CHR '':'', Dir Dir_M, Lit CHR '':'', Dir Dir_S]"

definition fmt_date :: "tok list" where
  "fmt_date = [Dir Dir_Y, Lit CHR ''-'', Dir Dir_m, Lit CHR ''-'', Dir Dir_d, Spaces]"

text \<open>
  \<open>dt.strftime("%Y-%m-%d %H:%M:%S")\<close> hands the format to the \<open>strftime\<close> of the C
  library. On Linux (CPython 3.11 on glibc, where the program is deployed) \<open>%Y\<close> is the
  year as a plain decimal number, without padding: the year 999 is printed as \<open>999\<close> and
  the year 1 as \<open>1\<close>. The other fields are printed with two digits, padded with a zero.
  It has no failing case on a \<open>datetime\<close>. \<open>digit_chr\<close> is only applied to numbers below
  ten.
\<close>

definition digit_chr :: "nat \<Rightarrow> char" where
  "digit_chr n = ''0123456789'' ! n"

fun dec :: "nat \<Rightarrow> string" where
  "dec n = (if n < 10 then [digit_chr n] else dec (n div 10) @ [digit_chr (n mod 10)])"

declare dec.simps [simp del]

definition pad :: "nat \<Rightarrow> nat \<Rightarrow> string" where
  "pad width n = replicate (width - length (dec n)) CHR ''0'' @ dec n"

definition strftime :: "datetime \<Rightarrow> string" where
  "strftime dt =
     dec (year dt) @ ''-'' @ pad 2 (month dt) @ ''-'' @ pad 2 (day dt) @ '' ''
     @ pad 2 (hour dt) @ '':'' @ pad 2 (minute dt) @ '':'' @ pad 2 (second dt)"

section \<open>Parsing a time of day\<close>

text \<open>
  \<open>_parse_hhmm_or_hhmmss\<close>. The argument may be \<open>None\<close> (\<open>s or ""\<close>). The loop over the
  two formats swallows the \<open>ValueError\<close> of each attempt; the \<open>strptime\<close> call of the
  two-part branch is outside any \<open>try\<close>, so its error leaves the function, as does the
  final \<open>raise\<close>.
\<close>

definition parse_hhmm_or_hhmmss :: "string option \<Rightarrow> error + time" where
  "parse_hhmm_or_hhmmss s0 =
     (let s = strip (case s0 of None \<Rightarrow> [] | Some x \<Rightarrow> x) in
      case strptime s fmt_HM of
        Inr dt \<Rightarrow> Inr (time_of dt)
      | Inl ValueError \<Rightarrow>
         (case strptime s fmt_HMS of
            Inr dt \<Rightarrow> Inr (time_of dt)
          | Inl ValueError \<Rightarrow>
             (let parts = split CHR '':'' s in
              if length parts = 2 then
                (let h = zfill 2 (parts ! 0);
                     m = zfill 2 (parts ! 1)
                 in case strptime (h @ '':'' @ m) fmt_HM of
                      Inr dt \<Rightarrow> Inr (time_of dt)
                    | Inl e \<Rightarrow> Inl e)
              else Inl ValueError)))"

section \<open>Normalising a timestamp\<close>

text \<open>
  \<open>normalize_ts\<close>. \<open>not ts_input\<close> holds for \<open>None\<close> and for the empty text. The loop
  over \<open>fmts\<close> returns at the first format that parses and goes on to the next one when
  \<open>strptime\<close> raises \<open>ValueError\<close>, the only exception of the model; after the loop the
  result is \<open>None\<close>. No exception leaves the function, so its result is an optional text.
\<close>

definition fmts :: "tok list list" where
  \<comment> \<open>\<open>["%Y-%m-%d %H:%M", "%Y-%m-%d %H:%M:%S", "%Y-%m-%d %H:%M:%S.%f"]\<close>\<close>
  "fmts = [fmt_date @ fmt_HM, fmt_date @ fmt_HMS, fmt_date @ fmt_HMS @ [Lit CHR ''.'', Dir Dir_f]]"

fun try_formats :: "string \<Rightarrow> tok list list \<Rightarrow> string option" where
  "try_formats s [] = None"
| "try_formats s (f # fs) =
     (case strptime s f of
        Inr dt \<Rightarrow> Some (strftime dt)
      | Inl ValueError \<Rightarrow> try_formats s fs)"

definition normalize_ts :: "string option \<Rightarrow> string option" where
  "normalize_ts ts_input =
     (case ts_input of
        None \<Rightarrow> None
      | Some x \<Rightarrow>
          if x = [] then None
          else try_formats (replace CHR ''T'' CHR '' '' (strip x)) fmts)"

text \<open>
  The canonical form \<open>YYYY-MM-DD HH:MM:SS\<close>: nineteen characters, a digit wherever the
  shape has a \<open>d\<close> and the character of the shape everywhere else. \<open>canon\<close> builds such
  a text from fourteen digits.
\<close>

fun has_shape :: "string \<Rightarrow> string \<Rightarrow> bool" where
  "has_shape [] [] = True"
| "has_shape (p # ps) (c # cs) =
     ((if p = CHR ''d'' then is_digit c else c = p) \<and> has_shape ps cs)"
| "has_shape _ _ = False"

definition is_canonical :: "string \<Rightarrow> bool" where
  "is_canonical s = has_shape ''dddd-dd-dd dd:dd:dd'' s"

definition canon :: "nat \<Rightarrow> nat \<Rightarrow> nat \<Rightarrow> nat \<Rightarrow> nat \<Rightarrow> nat \<Rightarrow> nat \<Rightarrow> nat
    \<Rightarrow> nat \<Rightarrow> nat \<Rightarrow> nat \<Rightarrow> nat \<Rightarrow> nat \<Rightarrow> nat \<Rightarrow> string" where
  "canon y3 y2 y1 y0 m1 m0 d1 d0 h1 h0 mi1 mi0 s1 s0 =
     [digit_chr y3, digit_chr y2, digit_chr y1, digit_chr y0, CHR ''-'',
      digit_chr m1, digit_chr m0, CHR ''-'', digit_chr d1, digit_chr d0, CHR '' '',
      digit_chr h1, digit_chr h0, CHR '':'', digit_chr mi1, digit_chr mi0, CHR '':'',
      digit_chr s1, digit_chr s0]"

section \<open>Properties of period resolution\<close>

lemma time_of_at_time: "time_of (at_time h m) = hm h m"
  by (simp add: time_of_def at_time_def hm_def)

lemma well_formed_school_day: "well_formed school_day"
  by (simp add: well_formed_def school_day_def overlaps_def time_lt_def time_le_def
      time_key_def hm_def)

lemma well_formed_adjacent_day: "well_formed adjacent_day"
  by (simp add: well_formed_def adjacent_day_def overlaps_def time_lt_def time_le_def
      time_key_def hm_def)

lemma wf_start_lt_end:
  assumes "well_formed ttable" and "i < length ttable"
  shows "time_key (start_t (ttable ! i)) < time_key (end_t (ttable ! i))"
  using assms by (simp add: well_formed_def list_all_length time_lt_def)

lemma wf_start_mono:
  assumes "well_formed ttable" and "i \<le> j" and "j < length ttable"
  shows "time_key (start_t (ttable ! i)) \<le> time_key (start_t (ttable ! j))"
proof (cases "i = j")
  case True
  then show ?thesis by simp
next
  case False
  with assms have "i < j" by simp
  with assms show ?thesis
    by (simp add: well_formed_def sorted_wrt_iff_nth_less time_le_def)
qed

lemma wf_end_le_start:
  assumes wf: "well_formed ttable" and ij: "i < j" and j: "j < length ttable"
  shows "time_key (end_t (ttable ! i)) \<le> time_key (start_t (ttable ! j))"
proof -
  have "\<not> overlaps (ttable ! i) (ttable ! j)"
    using wf ij j by (simp add: well_formed_def sorted_wrt_iff_nth_less)
  moreover have "time_key (start_t (ttable ! i)) < time_key (end_t (ttable ! j))"
    using wf_start_mono [OF wf less_imp_le [OF ij] j] wf_start_lt_end [OF wf j]
    by (rule le_less_trans)
  ultimately show ?thesis
    by (simp add: overlaps_def time_lt_def not_less)
qed

lemma wf_end_mono:
  assumes wf: "well_formed ttable" and ij: "i \<le> j" and j: "j < length ttable"
  shows "time_key (end_t (ttable ! i)) \<le> time_key (end_t (ttable ! j))"
proof (cases "i = j")
  case True
  then show ?thesis by simp
next
  case False
  with ij have lt: "i < j" by simp
  have "time_key (end_t (ttable ! i)) \<le> time_key (start_t (ttable ! j))"
    using wf lt j by (rule wf_end_le_start)
  also have "\<dots> \<le> time_key (end_t (ttable ! j))"
    using wf_start_lt_end [OF wf j] by (rule less_imp_le)
  finally show ?thesis .
qed

lemma find_containing:
  assumes wf: "well_formed ttable" and i: "i < length ttable"
    and lo: "time_le (start_t (ttable ! i)) t" and hi: "time_lt t (end_t (ttable ! i))"
  shows "find (\<lambda>rec. time_le (start_t rec) t \<and> time_lt t (end_t rec)) ttable = Some (ttable ! i)"
proof -
  have "\<not> time_lt t (end_t (ttable ! j))" if "j < i" for j
  proof -
    have "time_key (end_t (ttable ! j)) \<le> time_key (start_t (ttable ! i))"
      using wf that i by (rule wf_end_le_start)
    with lo show ?thesis by (simp add: time_le_def time_lt_def not_less)
  qed
  with i lo hi show ?thesis
    unfolding find_Some_iff by blast
qed

lemma find_containing_none:
  assumes wf: "well_formed ttable" and i: "Suc i < length ttable"
    and lo: "time_le (end_t (ttable ! i)) t" and hi: "time_lt t (start_t (ttable ! Suc i))"
  shows "find (\<lambda>rec. time_le (start_t rec) t \<and> time_lt t (end_t rec)) ttable = None"
proof -
  have "\<not> (time_le (start_t (ttable ! j)) t \<and> time_lt t (end_t (ttable ! j)))"
    if j: "j < length ttable" for j
  proof (cases "j \<le> i")
    case True
    have "time_key (end_t (ttable ! j)) \<le> time_key (end_t (ttable ! i))"
      using wf True i by (simp add: wf_end_mono)
    with lo have "time_key (end_t (ttable ! j)) \<le> time_key t"
      unfolding time_le_def by (blast intro: order_trans)
    then show ?thesis by (simp add: time_lt_def not_less)
  next
    case False
    then have "Suc i \<le> j" by simp
    then have "time_key (start_t (ttable ! Suc i)) \<le> time_key (start_t (ttable ! j))"
      using wf j by (simp add: wf_start_mono)
    with hi have "time_key t < time_key (start_t (ttable ! j))"
      unfolding time_lt_def by (blast intro: less_le_trans)
    then show ?thesis by (simp add: time_le_def not_le)
  qed
  then show ?thesis
    unfolding find_None_iff by (metis in_set_conv_nth)
qed

lemma find_gap:
  assumes wf: "well_formed ttable" and i: "Suc i < length ttable"
    and lo: "time_le (end_t (ttable ! i)) t" and hi: "time_lt t (start_t (ttable ! Suc i))"
  shows "find (\<lambda>i. time_le (end_t (ttable ! i)) t \<and> time_lt t (start_t (ttable ! (i + 1))))
           [0 ..< length ttable - 1] = Some i"
proof -
  have "\<not> time_lt t (start_t (ttable ! (j + 1)))" if "j < i" for j
  proof -
    have "time_key (start_t (ttable ! (j + 1))) \<le> time_key (start_t (ttable ! i))"
      using wf that i by (simp add: wf_start_mono)
    also have "\<dots> \<le> time_key (end_t (ttable ! i))"
      using wf i by (simp add: wf_start_lt_end less_imp_le)
    also have "\<dots> \<le> time_key t"
      using lo by (simp add: time_le_def)
    finally show ?thesis
      by (simp add: time_lt_def not_less)
  qed
  moreover have "i < length [0 ..< length ttable - 1]"
    using i by simp
  ultimately show ?thesis
    using lo hi i unfolding find_Some_iff
    by (intro exI [of _ i]) simp
qed

lemma resolve_in_gap:
  assumes wf: "well_formed ttable" and i: "Suc i < length ttable"
    and lo: "time_le (end_t (ttable ! i)) (time_of ts_dt)"
    and hi: "time_lt (time_of ts_dt) (start_t (ttable ! Suc i))"
  shows "resolve_period_for ttable ts_dt = Some (ttable ! Suc i)"
proof -
  let ?t = "time_of ts_dt"
  have ne: "ttable \<noteq> []" using i by auto
  have a: "find (\<lambda>rec. time_le (start_t rec) ?t \<and> time_lt ?t (end_t rec)) ttable = None"
    using wf i lo hi by (rule find_containing_none)
  have "time_key (start_t (ttable ! 0)) \<le> time_key (start_t (ttable ! i))"
    using wf i by (simp add: wf_start_mono)
  also have "\<dots> \<le> time_key (end_t (ttable ! i))"
    using wf i by (simp add: wf_start_lt_end less_imp_le)
  also have "\<dots> \<le> time_key ?t"
    using lo by (simp add: time_le_def)
  finally have b: "\<not> time_lt ?t (start_t (ttable ! 0))"
    by (simp add: time_lt_def not_less)
  have last: "last ttable = ttable ! (length ttable - 1)"
    using ne by (rule last_conv_nth)
  have "time_key ?t < time_key (start_t (ttable ! Suc i))"
    using hi by (simp add: time_lt_def)
  also have "\<dots> < time_key (end_t (ttable ! Suc i))"
    using wf i by (rule wf_start_lt_end)
  also have "\<dots> \<le> time_key (end_t (ttable ! (length ttable - 1)))"
    using wf i by (simp add: wf_end_mono)
  finally have c: "\<not> time_ge ?t (end_t (last ttable))"
    by (simp add: last time_ge_def not_le)
  have d: "find (\<lambda>i. time_le (end_t (ttable ! i)) ?t \<and> time_lt ?t (start_t (ttable ! (i + 1))))
           [0 ..< length ttable - 1] = Some i"
    using wf i lo hi by (rule find_gap)
  show ?thesis
    using ne a b c d by (simp add: resolve_period_for_def)
qed

lemma find_containing_before_first:
  assumes wf: "well_formed ttable" and hi: "time_lt t (start_t (ttable ! 0))"
  shows "find (\<lambda>rec. time_le (start_t rec) t \<and> time_lt t (end_t rec)) ttable = None"
proof -
  have "\<not> time_le (start_t (ttable ! j)) t" if j: "j < length ttable" for j
  proof -
    have "time_key t < time_key (start_t (ttable ! 0))"
      using hi by (simp add: time_lt_def)
    also have "\<dots> \<le> time_key (start_t (ttable ! j))"
      using wf j by (simp add: wf_start_mono)
    finally show ?thesis by (simp add: time_le_def not_le)
  qed
  then show ?thesis
    unfolding find_None_iff by (metis in_set_conv_nth)
qed

lemma find_containing_after_last:
  assumes wf: "well_formed ttable" and lo: "time_ge t (end_t (last ttable))"
  shows "find (\<lambda>rec. time_le (start_t rec) t \<and> time_lt t (end_t rec)) ttable = None"
proof -
  have ne: "ttable \<noteq> []" using wf by (simp add: well_formed_def)
  have last: "last ttable = ttable ! (length ttable - 1)"
    using ne by (rule last_conv_nth)
  have "\<not> time_lt t (end_t (ttable ! j))" if j: "j < length ttable" for j
  proof -
    have "time_key (end_t (ttable ! j)) \<le> time_key (end_t (ttable ! (length ttable - 1)))"
      using wf j by (simp add: wf_end_mono)
    also have "\<dots> \<le> time_key t"
      using lo by (simp add: last time_ge_def)
    finally show ?thesis by (simp add: time_lt_def not_less)
  qed
  then show ?thesis
    unfolding find_None_iff by (metis in_set_conv_nth)
qed

lemma not_before_first_after_last:
  assumes wf: "well_formed ttable" and lo: "time_ge t (end_t (last ttable))"
  shows "\<not> time_lt t (start_t (ttable ! 0))"
proof -
  have ne: "ttable \<noteq> []" using wf by (simp add: well_formed_def)
  have last: "last ttable = ttable ! (length ttable - 1)"
    using ne by (rule last_conv_nth)
  have "time_key (start_t (ttable ! 0)) \<le> time_key (end_t (ttable ! 0))"
    using wf ne by (simp add: wf_start_lt_end less_imp_le)
  also have "\<dots> \<le> time_key (end_t (ttable ! (length ttable - 1)))"
    using wf ne by (simp add: wf_end_mono)
  also have "\<dots> \<le> time_key t"
    using lo by (simp add: last time_ge_def)
  finally show ?thesis by (simp add: time_lt_def not_less)
qed

text \<open>
  C1. In a well-formed timetable, a timestamp whose time of day \<open>t\<close> satisfies
  \<open>start \<le> t < end\<close> for interval \<open>i\<close> is resolved to interval \<open>i\<close>.
\<close>

theorem resolve_period_containing:
  assumes "well_formed ttable" and "i < length ttable"
    and "time_le (start_t (ttable ! i)) (time_of ts_dt)"
    and "time_lt (time_of ts_dt) (end_t (ttable ! i))"
  shows "resolve_period_for ttable ts_dt = Some (ttable ! i)"
proof -
  have "ttable \<noteq> []" using assms(2) by auto
  then show ?thesis
    using find_containing [OF assms] by (simp add: resolve_period_for_def)
qed

theorem resolve_period_containing_witness:
  "well_formed school_day \<and> (1::nat) < length school_day
   \<and> time_le (start_t (school_day ! 1)) (time_of (at_time 11 5))
   \<and> time_lt (time_of (at_time 11 5)) (end_t (school_day ! 1))
   \<and> resolve_period_for school_day (at_time 11 5)
       = Some \<lparr>period = 2, start_t = hm 10 35, end_t = hm 12 15\<rparr>"
proof -
  have i: "(1::nat) < length school_day"
    by (simp add: school_day_def)
  have lo: "time_le (start_t (school_day ! 1)) (time_of (at_time 11 5))"
    by (simp add: school_day_def time_of_at_time time_le_def time_key_def hm_def)
  have hi: "time_lt (time_of (at_time 11 5)) (end_t (school_day ! 1))"
    by (simp add: school_day_def time_of_at_time time_lt_def time_key_def hm_def)
  have "school_day ! 1 = \<lparr>period = 2, start_t = hm 10 35, end_t = hm 12 15\<rparr>"
    by (simp add: school_day_def)
  with resolve_period_containing [OF well_formed_school_day i lo hi] well_formed_school_day i lo hi
  show ?thesis by simp
qed

text \<open>
  C2. In a well-formed timetable, a timestamp whose time of day equals the end of
  interval \<open>i\<close> is resolved to interval \<open>i + 1\<close> whenever that interval exists, whether
  it starts at that very time or after a gap.
\<close>

theorem resolve_period_end_boundary:
  assumes wf: "well_formed ttable" and i: "Suc i < length ttable"
    and t: "time_of ts_dt = end_t (ttable ! i)"
  shows "resolve_period_for ttable ts_dt = Some (ttable ! Suc i)"
proof (cases "time_lt (time_of ts_dt) (start_t (ttable ! Suc i))")
  case True
  have "time_le (end_t (ttable ! i)) (time_of ts_dt)"
    using t by (simp add: time_le_def)
  with wf i show ?thesis
    using True by (rule resolve_in_gap)
next
  case False
  then have lo: "time_le (start_t (ttable ! Suc i)) (time_of ts_dt)"
    by (simp add: time_lt_def time_le_def not_less)
  have "time_key (time_of ts_dt) \<le> time_key (start_t (ttable ! Suc i))"
    using wf_end_le_start [OF wf _ i, of i] t by simp
  also have "\<dots> < time_key (end_t (ttable ! Suc i))"
    using wf i by (rule wf_start_lt_end)
  finally have hi: "time_lt (time_of ts_dt) (end_t (ttable ! Suc i))"
    by (simp add: time_lt_def)
  have "ttable \<noteq> []" using i by auto
  then show ?thesis
    using find_containing [OF wf i lo hi] by (simp add: resolve_period_for_def)
qed

theorem resolve_period_end_boundary_witness:
  "well_formed adjacent_day \<and> Suc 0 < length adjacent_day
   \<and> time_of (at_time 10 0) = end_t (adjacent_day ! 0)
   \<and> resolve_period_for adjacent_day (at_time 10 0)
       = Some \<lparr>period = 2, start_t = hm 10 0, end_t = hm 11 0\<rparr>
   \<and> well_formed school_day \<and> Suc 0 < length school_day
   \<and> time_of (at_time 10 30) = end_t (school_day ! 0)
   \<and> resolve_period_for school_day (at_time 10 30)
       = Some \<lparr>period = 2, start_t = hm 10 35, end_t = hm 12 15\<rparr>"
proof -
  have a: "Suc 0 < length adjacent_day" and b: "Suc 0 < length school_day"
    by (simp_all add: adjacent_day_def school_day_def)
  have ta: "time_of (at_time 10 0) = end_t (adjacent_day ! 0)"
    by (simp add: adjacent_day_def time_of_at_time)
  have tb: "time_of (at_time 10 30) = end_t (school_day ! 0)"
    by (simp add: school_day_def time_of_at_time)
  have "adjacent_day ! Suc 0 = \<lparr>period = 2, start_t = hm 10 0, end_t = hm 11 0\<rparr>"
    and "school_day ! Suc 0 = \<lparr>period = 2, start_t = hm 10 35, end_t = hm 12 15\<rparr>"
    by (simp_all add: adjacent_day_def school_day_def)
  with resolve_period_end_boundary [OF well_formed_adjacent_day a ta]
    resolve_period_end_boundary [OF well_formed_school_day b tb]
    well_formed_adjacent_day well_formed_school_day a b ta tb
  show ?thesis by simp
qed

text \<open>
  C3. In a well-formed timetable, a time of day strictly between the end of interval
  \<open>i\<close> and the start of interval \<open>i + 1\<close> is resolved to interval \<open>i + 1\<close>.
\<close>

theorem resolve_period_gap:
  assumes wf: "well_formed ttable" and i: "Suc i < length ttable"
    and lo: "time_lt (end_t (ttable ! i)) (time_of ts_dt)"
    and hi: "time_lt (time_of ts_dt) (start_t (ttable ! Suc i))"
  shows "resolve_period_for ttable ts_dt = Some (ttable ! Suc i)"
proof -
  have "time_le (end_t (ttable ! i)) (time_of ts_dt)"
    using lo by (simp add: time_lt_def time_le_def less_imp_le)
  with wf i show ?thesis
    using hi by (rule resolve_in_gap)
qed

theorem resolve_period_gap_witness:
  "well_formed school_day \<and> Suc 0 < length school_day
   \<and> time_lt (end_t (school_day ! 0)) (time_of (at_time 10 32))
   \<and> time_lt (time_of (at_time 10 32)) (start_t (school_day ! Suc 0))
   \<and> resolve_period_for school_day (at_time 10 32)
       = Some \<lparr>period = 2, start_t = hm 10 35, end_t = hm 12 15\<rparr>"
proof -
  have i: "Suc 0 < length school_day"
    by (simp add: school_day_def)
  have lo: "time_lt (end_t (school_day ! 0)) (time_of (at_time 10 32))"
    by (simp add: school_day_def time_of_at_time time_lt_def time_key_def hm_def)
  have hi: "time_lt (time_of (at_time 10 32)) (start_t (school_day ! Suc 0))"
    by (simp add: school_day_def time_of_at_time time_lt_def time_key_def hm_def)
  have "school_day ! Suc 0 = \<lparr>period = 2, start_t = hm 10 35, end_t = hm 12 15\<rparr>"
    by (simp add: school_day_def)
  with resolve_period_gap [OF well_formed_school_day i lo hi] well_formed_school_day i lo hi
  show ?thesis by simp
qed

text \<open>
  C4. In a well-formed timetable, a time of day strictly before the start of the first
  interval is resolved to the first interval.
\<close>

theorem resolve_period_before_first:
  assumes wf: "well_formed ttable"
    and hi: "time_lt (time_of ts_dt) (start_t (ttable ! 0))"
  shows "resolve_period_for ttable ts_dt = Some (ttable ! 0)"
proof -
  have "ttable \<noteq> []" using wf by (simp add: well_formed_def)
  then show ?thesis
    using find_containing_before_first [OF wf hi] hi
    by (simp add: resolve_period_for_def)
qed

theorem resolve_period_before_first_witness:
  "well_formed school_day
   \<and> time_lt (time_of (at_time 8 0)) (start_t (school_day ! 0))
   \<and> resolve_period_for school_day (at_time 8 0)
       = Some \<lparr>period = 1, start_t = hm 8 50, end_t = hm 10 30\<rparr>"
proof -
  have hi: "time_lt (time_of (at_time 8 0)) (start_t (school_day ! 0))"
    by (simp add: school_day_def time_of_at_time time_lt_def time_key_def hm_def)
  have "school_day ! 0 = \<lparr>period = 1, start_t = hm 8 50, end_t = hm 10 30\<rparr>"
    by (simp add: school_day_def)
  with resolve_period_before_first [OF well_formed_school_day hi] well_formed_school_day hi
  show ?thesis by simp
qed

text \<open>
  C5. In a well-formed timetable, a time of day at or after the end of the last
  interval is resolved to the last interval.
\<close>

theorem resolve_period_after_last:
  assumes wf: "well_formed ttable"
    and lo: "time_ge (time_of ts_dt) (end_t (last ttable))"
  shows "resolve_period_for ttable ts_dt = Some (last ttable)"
proof -
  have "ttable \<noteq> []" using wf by (simp add: well_formed_def)
  then show ?thesis
    using find_containing_after_last [OF wf lo] not_before_first_after_last [OF wf lo] lo
    by (simp add: resolve_period_for_def)
qed

theorem resolve_period_after_last_witness:
  "well_formed school_day
   \<and> time_ge (time_of (at_time 14 40)) (end_t (last school_day))
   \<and> resolve_period_for school_day (at_time 14 40)
       = Some \<lparr>period = 3, start_t = hm 13 0, end_t = hm 14 40\<rparr>
   \<and> time_ge (time_of (at_time 15 0)) (end_t (last school_day))
   \<and> resolve_period_for school_day (at_time 15 0)
       = Some \<lparr>period = 3, start_t = hm 13 0, end_t = hm 14 40\<rparr>"
proof -
  have a: "time_ge (time_of (at_time 14 40)) (end_t (last school_day))"
    by (simp add: school_day_def time_of_at_time time_ge_def time_key_def hm_def)
  have b: "time_ge (time_of (at_time 15 0)) (end_t (last school_day))"
    by (simp add: school_day_def time_of_at_time time_ge_def time_key_def hm_def)
  have "last school_day = \<lparr>period = 3, start_t = hm 13 0, end_t = hm 14 40\<rparr>"
    by (simp add: school_day_def)
  with resolve_period_after_last [OF well_formed_school_day a]
    resolve_period_after_last [OF well_formed_school_day b] well_formed_school_day a b
  show ?thesis by simp
qed

text \<open>
  C6. The result is the absence value exactly when the timetable is empty; on every
  non-empty timetable (well-formed or not) and every timestamp the result is one of the
  timetable's intervals. The function is total and has no failing branch.
\<close>

theorem resolve_period_none_iff_empty:
  "(resolve_period_for ttable ts_dt = None \<longleftrightarrow> ttable = [])
   \<and> (ttable \<noteq> [] \<longrightarrow> (\<exists>r \<in> set ttable. resolve_period_for ttable ts_dt = Some r))"
proof (cases "ttable = []")
  case True
  then show ?thesis by (simp add: resolve_period_for_def)
next
  case False
  let ?t = "time_of ts_dt"
  have first: "ttable ! 0 \<in> set ttable" and last: "last ttable \<in> set ttable"
    using False by simp_all
  have "\<exists>r \<in> set ttable. resolve_period_for ttable ts_dt = Some r"
  proof (cases "find (\<lambda>rec. time_le (start_t rec) ?t \<and> time_lt ?t (end_t rec)) ttable")
    case (Some r)
    then have "r \<in> set ttable"
      by (auto simp: find_Some_iff)
    with False Some show ?thesis
      by (simp add: resolve_period_for_def)
  next
    case None
    show ?thesis
    proof (cases "find (\<lambda>i. time_le (end_t (ttable ! i)) ?t
                          \<and> time_lt ?t (start_t (ttable ! (i + 1))))
                    [0 ..< length ttable - 1]")
      case inner: None
      with False None first last show ?thesis
        by (simp add: resolve_period_for_def Let_def)
    next
      case inner: (Some i)
      then have "i < length ttable - 1"
        by (auto simp: find_Some_iff)
      then have "ttable ! (i + 1) \<in> set ttable"
        by simp
      with False None inner first last show ?thesis
        by (simp add: resolve_period_for_def Let_def)
    qed
  qed
  with False show ?thesis by auto
qed

theorem resolve_period_none_iff_empty_witness:
  "resolve_period_for [] (at_time 9 0) = None
   \<and> school_day \<noteq> []
   \<and> (\<exists>r \<in> set school_day. resolve_period_for school_day (at_time 9 0) = Some r)"
proof -
  have ne: "school_day \<noteq> []"
    by (simp add: school_day_def)
  with resolve_period_none_iff_empty [of "[]" "at_time 9 0"]
    resolve_period_none_iff_empty [of school_day "at_time 9 0"]
  show ?thesis by simp
qed

section \<open>Digits and padding\<close>

lemma of_char_digit_chr: "n < 10 \<Longrightarrow> (of_char (digit_chr n) :: nat) = 48 + n"
proof -
  assume "n < 10"
  then consider "n = 0" | "n = 1" | "n = 2" | "n = 3" | "n = 4" | "n = 5" | "n = 6" | "n = 7" | "n = 8" | "n = 9"
    by force
  then show ?thesis
    by cases (simp_all add: digit_chr_def)
qed

lemma digit_chr_neq:
  assumes "n < 10" and "(of_char c :: nat) < 48 \<or> 57 < (of_char c :: nat)"
  shows "digit_chr n \<noteq> c" and "c \<noteq> digit_chr n"
  using assms of_char_digit_chr [of n] by auto

lemma digit_chr_not_sep [simp]:
  assumes "n < 10"
  shows "digit_chr n \<noteq> CHR '':''" and "digit_chr n \<noteq> CHR ''-''" and "digit_chr n \<noteq> CHR '' ''"
    and "digit_chr n \<noteq> CHR ''T''" and "digit_chr n \<noteq> CHR ''.''"
  using assms by (simp_all add: digit_chr_neq)

lemma digit_chr_class [simp]:
  assumes "n < 10"
  shows "is_digit (digit_chr n)" and "\<not> is_space (digit_chr n)"
  using assms by (simp_all add: is_digit_def in_range_def is_space_def of_char_digit_chr)

lemma in_range_digit_chr:
  assumes "n < 10"
  shows "in_range CHR ''0'' CHR ''1'' (digit_chr n) \<longleftrightarrow> n \<le> 1"
    and "in_range CHR ''0'' CHR ''2'' (digit_chr n) \<longleftrightarrow> n \<le> 2"
    and "in_range CHR ''0'' CHR ''3'' (digit_chr n) \<longleftrightarrow> n \<le> 3"
    and "in_range CHR ''0'' CHR ''5'' (digit_chr n) \<longleftrightarrow> n \<le> 5"
    and "in_range CHR ''1'' CHR ''2'' (digit_chr n) \<longleftrightarrow> 1 \<le> n \<and> n \<le> 2"
    and "in_range CHR ''1'' CHR ''9'' (digit_chr n) \<longleftrightarrow> 1 \<le> n"
  using assms by (auto simp add: in_range_def of_char_digit_chr)

lemma lit_digit_chr:
  assumes "n < 10"
  shows "lit CHR ''0'' (digit_chr n) \<longleftrightarrow> n = 0"
    and "lit CHR ''1'' (digit_chr n) \<longleftrightarrow> n = 1"
    and "lit CHR ''2'' (digit_chr n) \<longleftrightarrow> n = 2"
    and "lit CHR ''3'' (digit_chr n) \<longleftrightarrow> n = 3"
    and "lit CHR ''6'' (digit_chr n) \<longleftrightarrow> n = 6"
    and "lit CHR '' '' (digit_chr n) \<longleftrightarrow> False"
proof -
  have *: "digit_chr n = c \<longleftrightarrow> 48 + n = (of_char c :: nat)" for c
    using of_char_digit_chr [OF assms] by (metis of_char_eq_iff)
  show "lit CHR ''0'' (digit_chr n) \<longleftrightarrow> n = 0"
    and "lit CHR ''1'' (digit_chr n) \<longleftrightarrow> n = 1"
    and "lit CHR ''2'' (digit_chr n) \<longleftrightarrow> n = 2"
    and "lit CHR ''3'' (digit_chr n) \<longleftrightarrow> n = 3"
    and "lit CHR ''6'' (digit_chr n) \<longleftrightarrow> n = 6"
    and "lit CHR '' '' (digit_chr n) \<longleftrightarrow> False"
    by (auto simp add: lit_def *)
qed

lemma dec_lt_10: "n < 10 \<Longrightarrow> dec n = [digit_chr n]"
  by (simp add: dec.simps)

lemma dec_lt_100:
  assumes "10 \<le> n" and "n < 100"
  shows "dec n = [digit_chr (n div 10), digit_chr (n mod 10)]"
proof -
  have "dec n = dec (n div 10) @ [digit_chr (n mod 10)]"
    using assms by (subst dec.simps) simp
  moreover have "dec (n div 10) = [digit_chr (n div 10)]"
    using assms by (intro dec_lt_10) auto
  ultimately show ?thesis by simp
qed

lemma dec_lt_1000:
  assumes "100 \<le> n" and "n < 1000"
  shows "dec n = [digit_chr (n div 100), digit_chr (n div 10 mod 10), digit_chr (n mod 10)]"
proof -
  have "dec n = dec (n div 10) @ [digit_chr (n mod 10)]"
    using assms by (subst dec.simps) simp
  moreover have "dec (n div 10) = [digit_chr (n div 10 div 10), digit_chr (n div 10 mod 10)]"
    using assms by (intro dec_lt_100) auto
  moreover have "n div 10 div 10 = n div 100"
    by (simp add: div_mult2_eq [symmetric])
  ultimately show ?thesis by simp
qed

lemma dec_lt_10000:
  assumes "1000 \<le> n" and "n < 10000"
  shows "dec n = [digit_chr (n div 1000), digit_chr (n div 100 mod 10),
                  digit_chr (n div 10 mod 10), digit_chr (n mod 10)]"
proof -
  have "dec n = dec (n div 10) @ [digit_chr (n mod 10)]"
    using assms by (subst dec.simps) simp
  moreover have "dec (n div 10) = [digit_chr (n div 10 div 100), digit_chr (n div 10 div 10 mod 10),
      digit_chr (n div 10 mod 10)]"
    using assms by (intro dec_lt_1000) auto
  moreover have "n div 10 div 100 = n div 1000" and "n div 10 div 10 = n div 100"
    by (simp_all add: div_mult2_eq [symmetric])
  ultimately show ?thesis by simp
qed

lemma digit_chr_0: "digit_chr 0 = CHR ''0''"
  by (simp add: digit_chr_def)

lemma replicate_small:
  "replicate (Suc 0) c = [c]" "replicate 2 c = [c, c]" "replicate 3 c = [c, c, c]"
  by (simp_all add: numeral_2_eq_2 numeral_3_eq_3)

lemma pad_2:
  assumes "n < 100"
  shows "pad 2 n = [digit_chr (n div 10), digit_chr (n mod 10)]"
proof (cases "n < 10")
  case True
  then show ?thesis by (simp add: pad_def dec_lt_10 digit_chr_0 replicate_small)
next
  case False
  with assms show ?thesis by (simp add: pad_def dec_lt_100)
qed

section \<open>Matching canonical texts\<close>

lemma int_of_2:
  assumes "a < 10" and "b < 10"
  shows "int_of [digit_chr a, digit_chr b] = 10 * a + b"
  using assms by (simp add: int_of_def of_char_digit_chr)

lemma int_of_4:
  assumes "a < 10" and "b < 10" and "c < 10" and "d < 10"
  shows "int_of [digit_chr a, digit_chr b, digit_chr c, digit_chr d]
         = 1000 * a + 100 * b + 10 * c + d"
  using assms by (simp add: int_of_def of_char_digit_chr)

lemma alt_Y:
  assumes "a < 10" and "b < 10" and "c < 10" and "d < 10"
  shows "alternatives (directive_re Dir_Y) (digit_chr a # digit_chr b # digit_chr c # digit_chr d # rest)
         = [([digit_chr a, digit_chr b, digit_chr c, digit_chr d], rest)]"
  using assms by simp

lemma alt_m:
  assumes "a < 10" and "b < 10" and "1 \<le> 10 * a + b" and "10 * a + b \<le> 12"
  shows "alternatives (directive_re Dir_m) (digit_chr a # digit_chr b # rest)
         = ([digit_chr a, digit_chr b], rest)
           # (if a = 0 then [] else [([digit_chr a], digit_chr b # rest)])"
  using assms by (auto simp add: in_range_digit_chr lit_digit_chr)

lemma alt_d:
  assumes "a < 10" and "b < 10" and "1 \<le> 10 * a + b" and "10 * a + b \<le> 31"
  shows "alternatives (directive_re Dir_d) (digit_chr a # digit_chr b # rest)
         = ([digit_chr a, digit_chr b], rest)
           # (if a = 0 then [] else [([digit_chr a], digit_chr b # rest)])"
  using assms by (auto simp add: in_range_digit_chr lit_digit_chr)

lemma alt_H:
  assumes "a < 10" and "b < 10" and "10 * a + b \<le> 23"
  shows "alternatives (directive_re Dir_H) (digit_chr a # digit_chr b # rest)
         = [([digit_chr a, digit_chr b], rest), ([digit_chr a], digit_chr b # rest)]"
  using assms by (auto simp add: in_range_digit_chr lit_digit_chr)

lemma alt_M:
  assumes "a < 10" and "b < 10" and "10 * a + b \<le> 59"
  shows "alternatives (directive_re Dir_M) (digit_chr a # digit_chr b # rest)
         = [([digit_chr a, digit_chr b], rest), ([digit_chr a], digit_chr b # rest)]"
  using assms by (auto simp add: in_range_digit_chr lit_digit_chr)

lemma alt_S:
  assumes "a < 10" and "b < 10" and "10 * a + b \<le> 59"
  shows "alternatives (directive_re Dir_S) (digit_chr a # digit_chr b # rest)
         = [([digit_chr a, digit_chr b], rest), ([digit_chr a], digit_chr b # rest)]"
  using assms by (auto simp add: in_range_digit_chr lit_digit_chr)

lemma spaces_one:
  assumes "\<not> is_space c"
  shows "spaces (CHR '' '' # c # rest) = [c # rest]"
  using assms by (simp add: spaces_def is_space_def)

lemma spaces_none:
  assumes "\<not> is_space c"
  shows "spaces (c # rest) = []"
  using assms by (simp add: spaces_def)

lemma re_match_date:
  assumes "y3 < 10" "y2 < 10" "y1 < 10" "y0 < 10" "m1 < 10" "m0 < 10" "d1 < 10" "d0 < 10"
    and "1 \<le> 10 * m1 + m0" "10 * m1 + m0 \<le> 12" "1 \<le> 10 * d1 + d0" "10 * d1 + d0 \<le> 31"
    and "\<not> is_space c"
  shows "re_match (fmt_date @ ts)
           (digit_chr y3 # digit_chr y2 # digit_chr y1 # digit_chr y0 # CHR ''-''
            # digit_chr m1 # digit_chr m0 # CHR ''-'' # digit_chr d1 # digit_chr d0 # CHR '' ''
            # c # rest) found
         = re_match ts (c # rest)
             (found\<lparr>year := 1000 * y3 + 100 * y2 + 10 * y1 + y0,
                    month := 10 * m1 + m0, day := 10 * d1 + d0\<rparr>)"
  using assms
  by (simp add: fmt_date_def alt_Y alt_m alt_d int_of_2 int_of_4 spaces_one spaces_none
      del: directive_re.simps)

lemma re_match_HM:
  assumes "h1 < 10" "h0 < 10" "mi1 < 10" "mi0 < 10"
    and "10 * h1 + h0 \<le> 23" "10 * mi1 + mi0 \<le> 59"
  shows "re_match (fmt_HM @ ts)
           (digit_chr h1 # digit_chr h0 # CHR '':'' # digit_chr mi1 # digit_chr mi0 # rest) found
         = re_match ts rest (found\<lparr>hour := 10 * h1 + h0, minute := 10 * mi1 + mi0\<rparr>)
           @ re_match ts (digit_chr mi0 # rest) (found\<lparr>hour := 10 * h1 + h0, minute := int_of [digit_chr mi1]\<rparr>)"
  using assms
  by (simp add: fmt_HM_def alt_H alt_M int_of_2 del: directive_re.simps)

lemma fmt_HMS_eq: "fmt_HMS = fmt_HM @ [Lit CHR '':'', Dir Dir_S]"
  by (simp add: fmt_HMS_def fmt_HM_def)

lemma strptime_canon_HM:
  assumes "y3 < 10" "y2 < 10" "y1 < 10" "y0 < 10" "m1 < 10" "m0 < 10" "d1 < 10" "d0 < 10"
    and "1 \<le> 10 * m1 + m0" "10 * m1 + m0 \<le> 12" "1 \<le> 10 * d1 + d0" "10 * d1 + d0 \<le> 31"
    and "h1 < 10" "h0 < 10" "mi1 < 10" "mi0 < 10"
    and "10 * h1 + h0 \<le> 23" "10 * mi1 + mi0 \<le> 59"
  shows "strptime (canon y3 y2 y1 y0 m1 m0 d1 d0 h1 h0 mi1 mi0 s1 s0) (fmt_date @ fmt_HM)
         = Inl ValueError"
proof -
  have "re_match (fmt_date @ fmt_HM @ []) (canon y3 y2 y1 y0 m1 m0 d1 d0 h1 h0 mi1 mi0 s1 s0) defaults
        = re_match (fmt_HM @ [])
            (digit_chr h1 # digit_chr h0 # CHR '':'' # digit_chr mi1 # digit_chr mi0
             # [CHR '':'', digit_chr s1, digit_chr s0])
            (defaults\<lparr>year := 1000 * y3 + 100 * y2 + 10 * y1 + y0,
                    month := 10 * m1 + m0, day := 10 * d1 + d0\<rparr>)"
    unfolding canon_def using assms by (intro re_match_date) simp_all
  also have "\<dots> = re_match [] [CHR '':'', digit_chr s1, digit_chr s0]
            (defaults\<lparr>year := 1000 * y3 + 100 * y2 + 10 * y1 + y0,
                    month := 10 * m1 + m0, day := 10 * d1 + d0,
                    hour := 10 * h1 + h0, minute := 10 * mi1 + mi0\<rparr>)
         @ re_match [] (digit_chr mi0 # [CHR '':'', digit_chr s1, digit_chr s0])
            (defaults\<lparr>year := 1000 * y3 + 100 * y2 + 10 * y1 + y0,
                    month := 10 * m1 + m0, day := 10 * d1 + d0,
                    hour := 10 * h1 + h0, minute := int_of [digit_chr mi1]\<rparr>)"
    using assms by (intro re_match_HM) simp_all
  finally show ?thesis
    by (simp add: strptime_def)
qed

lemma strptime_canon_HMS:
  assumes "y3 < 10" "y2 < 10" "y1 < 10" "y0 < 10" "m1 < 10" "m0 < 10" "d1 < 10" "d0 < 10"
    and "1 \<le> 10 * m1 + m0" "10 * m1 + m0 \<le> 12" "1 \<le> 10 * d1 + d0" "10 * d1 + d0 \<le> 31"
    and "h1 < 10" "h0 < 10" "mi1 < 10" "mi0 < 10" "s1 < 10" "s0 < 10"
    and "10 * h1 + h0 \<le> 23" "10 * mi1 + mi0 \<le> 59" "10 * s1 + s0 \<le> 59"
  shows "re_match (fmt_date @ fmt_HMS) (canon y3 y2 y1 y0 m1 m0 d1 d0 h1 h0 mi1 mi0 s1 s0) defaults
         = [(defaults\<lparr>year := 1000 * y3 + 100 * y2 + 10 * y1 + y0,
                    month := 10 * m1 + m0, day := 10 * d1 + d0,
                    hour := 10 * h1 + h0, minute := 10 * mi1 + mi0,
                    second := 10 * s1 + s0\<rparr>, []),
            (defaults\<lparr>year := 1000 * y3 + 100 * y2 + 10 * y1 + y0,
                    month := 10 * m1 + m0, day := 10 * d1 + d0,
                    hour := 10 * h1 + h0, minute := 10 * mi1 + mi0,
                    second := int_of [digit_chr s1]\<rparr>, [digit_chr s0])]"
proof -
  let ?tail = "[Lit CHR '':'', Dir Dir_S]"
  have "re_match (fmt_date @ fmt_HM @ ?tail) (canon y3 y2 y1 y0 m1 m0 d1 d0 h1 h0 mi1 mi0 s1 s0) defaults
        = re_match (fmt_HM @ ?tail)
            (digit_chr h1 # digit_chr h0 # CHR '':'' # digit_chr mi1 # digit_chr mi0
             # [CHR '':'', digit_chr s1, digit_chr s0])
            (defaults\<lparr>year := 1000 * y3 + 100 * y2 + 10 * y1 + y0,
                    month := 10 * m1 + m0, day := 10 * d1 + d0\<rparr>)"
    unfolding canon_def using assms by (intro re_match_date) simp_all
  also have "\<dots> = re_match ?tail [CHR '':'', digit_chr s1, digit_chr s0]
            (defaults\<lparr>year := 1000 * y3 + 100 * y2 + 10 * y1 + y0,
                    month := 10 * m1 + m0, day := 10 * d1 + d0,
                    hour := 10 * h1 + h0, minute := 10 * mi1 + mi0\<rparr>)
         @ re_match ?tail (digit_chr mi0 # [CHR '':'', digit_chr s1, digit_chr s0])
            (defaults\<lparr>year := 1000 * y3 + 100 * y2 + 10 * y1 + y0,
                    month := 10 * m1 + m0, day := 10 * d1 + d0,
                    hour := 10 * h1 + h0, minute := int_of [digit_chr mi1]\<rparr>)"
    using assms by (intro re_match_HM) simp_all
  also have "\<dots> = [(defaults\<lparr>year := 1000 * y3 + 100 * y2 + 10 * y1 + y0,
                    month := 10 * m1 + m0, day := 10 * d1 + d0,
                    hour := 10 * h1 + h0, minute := 10 * mi1 + mi0,
                    second := 10 * s1 + s0\<rparr>, []),
            (defaults\<lparr>year := 1000 * y3 + 100 * y2 + 10 * y1 + y0,
                    month := 10 * m1 + m0, day := 10 * d1 + d0,
                    hour := 10 * h1 + h0, minute := 10 * mi1 + mi0,
                    second := int_of [digit_chr s1]\<rparr>, [digit_chr s0])]"
    using assms by (simp add: alt_S int_of_2 del: directive_re.simps)
  finally show ?thesis
    by (simp add: fmt_HMS_eq)
qed

lemma digits2: "10 * (n div 10) + n mod 10 = (n::nat)"
  by simp

lemma digits4: "1000 * (y div 1000) + 100 * (y div 100 mod 10) + 10 * (y div 10 mod 10) + y mod 10 = (y::nat)"
proof -
  have a: "y div 100 = y div 10 div 10" and b: "y div 1000 = y div 10 div 10 div 10"
    by (simp_all add: div_mult2_eq [symmetric])
  have "y = 10 * (y div 10) + y mod 10"
    by simp
  also have "y div 10 = 10 * (y div 10 div 10) + y div 10 mod 10"
    by simp
  also have "y div 10 div 10 = 10 * (y div 10 div 10 div 10) + y div 10 div 10 mod 10"
    by simp
  finally have "y = 10 * (10 * (10 * (y div 1000) + y div 100 mod 10) + y div 10 mod 10) + y mod 10"
    unfolding a b .
  then show ?thesis by simp
qed

lemma valid_day_le: "valid_datetime dt \<Longrightarrow> day dt \<le> 31"
  unfolding valid_datetime_def days_in_month_def
  by (cases "month dt = 2"; cases "is_leap (year dt)";
      cases "month dt = 4 \<or> month dt = 6 \<or> month dt = 9 \<or> month dt = 11") simp_all

lemma strftime_canon:
  assumes v: "valid_datetime dt" and y1: "1000 \<le> year dt"
  shows "strftime dt =
     canon (year dt div 1000) (year dt div 100 mod 10) (year dt div 10 mod 10) (year dt mod 10)
       (month dt div 10) (month dt mod 10) (day dt div 10) (day dt mod 10)
       (hour dt div 10) (hour dt mod 10) (minute dt div 10) (minute dt mod 10)
       (second dt div 10) (second dt mod 10)"
proof -
  have y: "year dt < 10000" and m: "month dt < 100" and h: "hour dt < 100"
    and mi: "minute dt < 100" and s: "second dt < 100"
    using v by (simp_all add: valid_datetime_def)
  have d: "day dt < 100"
    using valid_day_le [OF v] by simp
  show ?thesis
    unfolding strftime_def canon_def dec_lt_10000 [OF y1 y] pad_2 [OF m] pad_2 [OF d]
      pad_2 [OF h] pad_2 [OF mi] pad_2 [OF s]
    by simp
qed

lemma two_digits:
  assumes "(n::nat) < 100"
  shows "n div 10 < 10" and "n mod 10 < 10"
  using assms by simp_all

lemma four_digits:
  assumes "(y::nat) < 10000"
  shows "y div 1000 < 10" and "y div 100 mod 10 < 10" and "y div 10 mod 10 < 10" and "y mod 10 < 10"
  using assms by simp_all

lemma strptime_strftime_HM:
  assumes v: "valid_datetime dt" and y1: "1000 \<le> year dt"
  shows "strptime (strftime dt) (fmt_date @ fmt_HM) = Inl ValueError"
proof -
  have y: "year dt < 10000" and m: "month dt < 100" and h: "hour dt < 100"
    and mi: "minute dt < 100"
    using v by (simp_all add: valid_datetime_def)
  have d: "day dt < 100"
    using valid_day_le [OF v] by simp
  show ?thesis
    unfolding strftime_canon [OF v y1]
  proof (rule strptime_canon_HM)
    show "1 \<le> 10 * (month dt div 10) + month dt mod 10"
      and "10 * (month dt div 10) + month dt mod 10 \<le> 12"
      and "10 * (hour dt div 10) + hour dt mod 10 \<le> 23"
      and "10 * (minute dt div 10) + minute dt mod 10 \<le> 59"
      using v unfolding digits2 by (simp_all add: valid_datetime_def)
    show "1 \<le> 10 * (day dt div 10) + day dt mod 10"
      and "10 * (day dt div 10) + day dt mod 10 \<le> 31"
      using v valid_day_le [OF v] unfolding digits2 by (simp_all add: valid_datetime_def)
  qed (rule four_digits [OF y] two_digits [OF m] two_digits [OF d] two_digits [OF h]
        two_digits [OF mi])+
qed

lemma strptime_strftime_HMS:
  assumes v: "valid_datetime dt" and y1: "1000 \<le> year dt"
  shows "strptime (strftime dt) (fmt_date @ fmt_HMS) = Inr (dt\<lparr>microsecond := 0\<rparr>)"
proof -
  have y: "year dt < 10000" and m: "month dt < 100" and h: "hour dt < 100"
    and mi: "minute dt < 100" and s: "second dt < 100"
    using v by (simp_all add: valid_datetime_def)
  have d: "day dt < 100"
    using valid_day_le [OF v] by simp
  let ?found = "defaults\<lparr>year := 1000 * (year dt div 1000) + 100 * (year dt div 100 mod 10)
                           + 10 * (year dt div 10 mod 10) + year dt mod 10,
                    month := 10 * (month dt div 10) + month dt mod 10,
                    day := 10 * (day dt div 10) + day dt mod 10,
                    hour := 10 * (hour dt div 10) + hour dt mod 10,
                    minute := 10 * (minute dt div 10) + minute dt mod 10,
                    second := 10 * (second dt div 10) + second dt mod 10\<rparr>"
  have "\<exists>junk. re_match (fmt_date @ fmt_HMS) (strftime dt) defaults = (?found, []) # junk"
    unfolding strftime_canon [OF v y1]
  proof (subst strptime_canon_HMS)
    show "1 \<le> 10 * (month dt div 10) + month dt mod 10"
      and "10 * (month dt div 10) + month dt mod 10 \<le> 12"
      and "10 * (hour dt div 10) + hour dt mod 10 \<le> 23"
      and "10 * (minute dt div 10) + minute dt mod 10 \<le> 59"
      and "10 * (second dt div 10) + second dt mod 10 \<le> 59"
      using v unfolding digits2 by (simp_all add: valid_datetime_def)
    show "1 \<le> 10 * (day dt div 10) + day dt mod 10"
      and "10 * (day dt div 10) + day dt mod 10 \<le> 31"
      using v valid_day_le [OF v] unfolding digits2 by (simp_all add: valid_datetime_def)
  qed (rule four_digits [OF y] two_digits [OF m] two_digits [OF d] two_digits [OF h]
        two_digits [OF mi] two_digits [OF s] | blast)+
  then obtain junk where
    r: "re_match (fmt_date @ fmt_HMS) (strftime dt) defaults = (?found, []) # junk" ..
  have f: "?found = dt\<lparr>microsecond := 0\<rparr>"
    unfolding digits4 digits2 by (simp add: defaults_def)
  have "valid_datetime (dt\<lparr>microsecond := 0\<rparr>)"
    using v by (simp add: valid_datetime_def)
  then show ?thesis
    unfolding strptime_def r f by simp
qed

section \<open>The examples of the specification\<close>

lemmas char_class_defs = in_range_def is_digit_def is_space_def lit_def

lemma strftime_example: "strftime (at_time 8 50) = ''2025-04-08 08:50:00''"
  by (simp add: strftime_def at_time_def pad_def dec.simps digit_chr_def replicate_small)

lemma strptime_example_HM:
  "strptime ''2025-04-08 08:50'' (fmt_date @ fmt_HM) = Inr (at_time 8 50)"
  by (simp add: strptime_def fmt_date_def fmt_HM_def char_class_defs spaces_def int_of_def
      defaults_def at_time_def valid_datetime_def days_in_month_def)

lemma strptime_example_HMSf_1:
  "strptime ''2025-04-08 08:50:00.123456'' (fmt_date @ fmt_HM) = Inl ValueError"
  by (simp add: strptime_def fmt_date_def fmt_HM_def char_class_defs spaces_def int_of_def
      defaults_def)

lemma strptime_example_HMSf_2:
  "strptime ''2025-04-08 08:50:00.123456'' (fmt_date @ fmt_HMS) = Inl ValueError"
  by (simp add: strptime_def fmt_date_def fmt_HMS_def char_class_defs spaces_def int_of_def
      defaults_def)

lemma strptime_example_HMSf_3:
  "strptime ''2025-04-08 08:50:00.123456'' (fmt_date @ fmt_HMS @ [Lit CHR ''.'', Dir Dir_f])
   = Inr ((at_time 8 50)\<lparr>microsecond := 123456\<rparr>)"
  by (simp add: strptime_def fmt_date_def fmt_HMS_def char_class_defs spaces_def int_of_def
      defaults_def at_time_def valid_datetime_def days_in_month_def)

lemma prep_example_1:
  "replace CHR ''T'' CHR '' '' (strip ''2025-04-08T08:50'') = ''2025-04-08 08:50''"
  by (simp add: replace_def strip_def is_space_def)

lemma prep_example_2:
  "replace CHR ''T'' CHR '' '' (strip ''2025-04-08 08:50:00.123456'') = ''2025-04-08 08:50:00.123456''"
  by (simp add: replace_def strip_def is_space_def)

lemma normalize_example_1:
  "normalize_ts (Some ''2025-04-08T08:50'') = Some ''2025-04-08 08:50:00''"
  by (simp add: normalize_ts_def prep_example_1 fmts_def strptime_example_HM strftime_example)

lemma strftime_microsecond: "strftime (dt\<lparr>microsecond := us\<rparr>) = strftime dt"
  by (simp add: strftime_def)

lemma normalize_example_2:
  "normalize_ts (Some ''2025-04-08 08:50:00.123456'') = Some ''2025-04-08 08:50:00''"
  by (simp add: normalize_ts_def prep_example_2 fmts_def strptime_example_HMSf_1
      strptime_example_HMSf_2 strptime_example_HMSf_3 strftime_microsecond strftime_example)

section \<open>Normalising a canonical text\<close>

lemma strptime_valid: "strptime s f = Inr dt \<Longrightarrow> valid_datetime dt"
  by (auto simp add: strptime_def split: list.splits prod.splits if_splits)

lemma try_formats_Some:
  "try_formats s fs = Some out \<Longrightarrow> \<exists>dt. valid_datetime dt \<and> out = strftime dt"
proof (induction fs)
  case Nil
  then show ?case by simp
next
  case (Cons f fs)
  show ?case
  proof (cases "strptime s f")
    case (Inl e)
    with Cons show ?thesis by (cases e) simp
  next
    case (Inr dt)
    with Cons.prems have "out = strftime dt" by simp
    with strptime_valid [OF Inr] show ?thesis by blast
  qed
qed

lemma canon_prep:
  assumes "y3 < 10" "y2 < 10" "y1 < 10" "y0 < 10" "m1 < 10" "m0 < 10" "d1 < 10" "d0 < 10"
    and "h1 < 10" "h0 < 10" "mi1 < 10" "mi0 < 10" "s1 < 10" "s0 < 10"
  shows "replace CHR ''T'' CHR '' '' (strip (canon y3 y2 y1 y0 m1 m0 d1 d0 h1 h0 mi1 mi0 s1 s0))
         = canon y3 y2 y1 y0 m1 m0 d1 d0 h1 h0 mi1 mi0 s1 s0"
  using assms by (simp add: canon_def strip_def replace_def)

lemma sep_not_digit: "\<not> is_digit CHR ''-''" "\<not> is_digit CHR '' ''" "\<not> is_digit CHR '':''"
  by (simp_all add: is_digit_def in_range_def)

lemma canon_is_canonical:
  assumes "y3 < 10" "y2 < 10" "y1 < 10" "y0 < 10" "m1 < 10" "m0 < 10" "d1 < 10" "d0 < 10"
    and "h1 < 10" "h0 < 10" "mi1 < 10" "mi0 < 10" "s1 < 10" "s0 < 10"
  shows "is_canonical (canon y3 y2 y1 y0 m1 m0 d1 d0 h1 h0 mi1 mi0 s1 s0)"
  using assms by (simp add: canon_def is_canonical_def sep_not_digit)

lemma strftime_prep:
  assumes v: "valid_datetime dt" and y1: "1000 \<le> year dt"
  shows "replace CHR ''T'' CHR '' '' (strip (strftime dt)) = strftime dt"
proof -
  have y: "year dt < 10000" and m: "month dt < 100" and h: "hour dt < 100"
    and mi: "minute dt < 100" and s: "second dt < 100"
    using v by (simp_all add: valid_datetime_def)
  have d: "day dt < 100"
    using valid_day_le [OF v] by simp
  show ?thesis
    unfolding strftime_canon [OF v y1]
    by (rule canon_prep)
      (rule four_digits [OF y] two_digits [OF m] two_digits [OF d] two_digits [OF h]
        two_digits [OF mi] two_digits [OF s])+
qed

lemma strftime_is_canonical:
  assumes v: "valid_datetime dt" and y1: "1000 \<le> year dt"
  shows "is_canonical (strftime dt)"
proof -
  have y: "year dt < 10000" and m: "month dt < 100" and h: "hour dt < 100"
    and mi: "minute dt < 100" and s: "second dt < 100"
    using v by (simp_all add: valid_datetime_def)
  have d: "day dt < 100"
    using valid_day_le [OF v] by simp
  show ?thesis
    unfolding strftime_canon [OF v y1]
    by (rule canon_is_canonical)
      (rule four_digits [OF y] two_digits [OF m] two_digits [OF d] two_digits [OF h]
        two_digits [OF mi] two_digits [OF s])+
qed

lemma strftime_not_empty: "strftime dt \<noteq> []"
  by (simp add: strftime_def)

lemma normalize_ts_strftime:
  assumes v: "valid_datetime dt" and y1: "1000 \<le> year dt"
  shows "normalize_ts (Some (strftime dt)) = Some (strftime dt)"
  using strftime_not_empty [of dt]
  by (simp add: normalize_ts_def strftime_prep [OF v y1] fmts_def strptime_strftime_HM [OF v y1]
      strptime_strftime_HMS [OF v y1] strftime_microsecond)

lemma normalize_ts_cases:
  "normalize_ts x = None \<or> (\<exists>dt. valid_datetime dt \<and> normalize_ts x = Some (strftime dt))"
proof (cases "normalize_ts x")
  case None
  then show ?thesis by simp
next
  case (Some out)
  then obtain s where "try_formats s fmts = Some out"
    by (auto simp add: normalize_ts_def split: option.splits if_splits)
  from try_formats_Some [OF this] Some show ?thesis by blast
qed

section \<open>No text is parsed by two formats\<close>

lemma classes_split:
  "classes Ps s = Some (g, r) \<Longrightarrow> s = g @ r \<and> list_all2 (\<lambda>P x. P x) Ps g"
proof (induction Ps s arbitrary: g r rule: classes.induct)
  case (1 s)
  then show ?case by simp
next
  case (2 P Ps)
  then show ?case by simp
next
  case (3 P Ps c cs)
  then show ?case by (auto split: if_splits)
qed

lemma alternatives_mem:
  "(g, r) \<in> set (alternatives alts s) \<Longrightarrow> \<exists>a \<in> set alts. classes a s = Some (g, r)"
  by (induction alts) (auto split: option.splits)

lemma directive_classes:
  assumes "a \<in> set (directive_re d)" and "P \<in> set a" and "P x"
  shows "is_digit x \<or> x = CHR '' ''"
  using assms by (cases d) (auto simp add: is_digit_def in_range_def lit_def)

lemma group_chars:
  assumes "(g, r) \<in> set (alternatives (directive_re d) s)"
  shows "s = g @ r \<and> (\<forall>x \<in> set g. is_digit x \<or> x = CHR '' '')"
proof -
  from alternatives_mem [OF assms] obtain a
    where a: "a \<in> set (directive_re d)" and c: "classes a s = Some (g, r)"
    by blast
  from classes_split [OF c] have s: "s = g @ r" and l: "list_all2 (\<lambda>P x. P x) a g"
    by simp_all
  have "is_digit x \<or> x = CHR '' ''" if "x \<in> set g" for x
  proof -
    from that obtain i where i: "i < length g" and x: "x = g ! i"
      by (auto simp add: in_set_conv_nth)
    from l i have "i < length a" and "(a ! i) (g ! i)"
      by (simp_all add: list_all2_conv_all_nth)
    then show ?thesis
      using directive_classes [OF a, of "a ! i" x] x by simp
  qed
  with s show ?thesis by blast
qed

lemma spaces_mem:
  assumes "r \<in> set (spaces s)"
  shows "\<exists>pre. s = pre @ r \<and> (\<forall>x \<in> set pre. is_space x)"
proof -
  let ?n = "length (takeWhile is_space s)"
  from assms have "\<exists>k. k \<le> ?n \<and> r = drop k s"
    unfolding spaces_def by (auto simp del: upt_Suc simp add: less_Suc_eq_le)
  then obtain k where k: "k \<le> ?n" and r: "r = drop k s"
    by blast
  have "take k s = take k (takeWhile is_space s @ dropWhile is_space s)"
    by simp
  also have "\<dots> = take k (takeWhile is_space s)"
    using k by (simp del: takeWhile_dropWhile_id)
  finally have "set (take k s) \<subseteq> set (takeWhile is_space s)"
    by (simp add: set_take_subset)
  then have "\<forall>x \<in> set (take k s). is_space x"
    by (auto dest: set_takeWhileD)
  moreover have "s = take k s @ r"
    by (simp add: r)
  ultimately show ?thesis by blast
qed

lemma count_list_none: "(\<forall>x \<in> set xs. x \<noteq> c) \<Longrightarrow> count_list xs c = 0"
  by (induction xs) auto

lemma re_match_count:
  assumes c: "\<not> is_digit c" "\<not> is_space c"
  shows "(found, rest) \<in> set (re_match ts s acc)
         \<Longrightarrow> count_list s c = count_list ts (Lit c) + count_list rest c"
proof (induction ts arbitrary: s acc)
  case Nil
  then show ?case by simp
next
  case (Cons t ts)
  have sp: "c \<noteq> CHR '' ''"
    using c(2) by (auto simp add: is_space_def)
  show ?case
  proof (cases t)
    case (Dir d)
    with Cons.prems obtain g r where gr: "(g, r) \<in> set (alternatives (directive_re d) s)"
      and m: "(found, rest) \<in> set (re_match ts r (store d g acc))"
      by auto
    from group_chars [OF gr] c(1) sp have "s = g @ r" and "count_list g c = 0"
      by (auto intro!: count_list_none)
    with Cons.IH [OF m] Dir show ?thesis by simp
  next
    case (Lit a)
    with Cons.prems obtain r where s: "s = a # r"
      and m: "(found, rest) \<in> set (re_match ts r acc)"
      by (auto split: list.splits if_splits)
    with Cons.IH [OF m] Lit show ?thesis by auto
  next
    case Spaces
    with Cons.prems obtain r where r: "r \<in> set (spaces s)"
      and m: "(found, rest) \<in> set (re_match ts r acc)"
      by auto
    from spaces_mem [OF r] c(2) obtain pre where "s = pre @ r" and "count_list pre c = 0"
      by (auto intro!: count_list_none)
    with Cons.IH [OF m] Spaces show ?thesis by simp
  qed
qed

lemma strptime_count:
  assumes "strptime s f = Inr dt" and "\<not> is_digit c" and "\<not> is_space c"
  shows "count_list s c = count_list f (Lit c)"
proof -
  from assms(1) obtain found junk where "re_match f s defaults = (found, []) # junk"
    by (auto simp add: strptime_def split: list.splits prod.splits if_splits)
  then have "(found, []) \<in> set (re_match f s defaults)"
    by simp
  from re_match_count [OF assms(2,3) this] show ?thesis by simp
qed

lemma sep_classes:
  "\<not> is_digit CHR ''.''" "\<not> is_space CHR ''.''" "\<not> is_space CHR '':''"
  by (simp_all add: is_digit_def in_range_def is_space_def)

lemma fmts_nth:
  "fmts ! 0 = fmt_date @ fmt_HM" "fmts ! 1 = fmt_date @ fmt_HMS"
  "fmts ! Suc 0 = fmt_date @ fmt_HMS"
  "fmts ! 2 = fmt_date @ fmt_HMS @ [Lit CHR ''.'', Dir Dir_f]"
  by (simp_all add: fmts_def)

lemma count_HM:
  assumes "strptime s (fmt_date @ fmt_HM) = Inr dt"
  shows "count_list s CHR '':'' = 1"
  using strptime_count [OF assms sep_not_digit(3) sep_classes(3)]
  by (simp add: fmt_date_def fmt_HM_def)

lemma count_HMS:
  assumes "strptime s (fmt_date @ fmt_HMS) = Inr dt"
  shows "count_list s CHR '':'' = 2" and "count_list s CHR ''.'' = 0"
  using strptime_count [OF assms sep_not_digit(3) sep_classes(3)]
    strptime_count [OF assms sep_classes(1) sep_classes(2)]
  by (simp_all add: fmt_date_def fmt_HMS_def)

lemma count_HMSf:
  assumes "strptime s (fmt_date @ fmt_HMS @ [Lit CHR ''.'', Dir Dir_f]) = Inr dt"
  shows "count_list s CHR '':'' = 2" and "count_list s CHR ''.'' = 1"
  using strptime_count [OF assms sep_not_digit(3) sep_classes(3)]
    strptime_count [OF assms sep_classes(1) sep_classes(2)]
  by (simp_all add: fmt_date_def fmt_HMS_def)

lemma strptime_not_Inr: "(\<forall>dt. strptime s f \<noteq> Inr dt) \<Longrightarrow> strptime s f = Inl ValueError"
  by (cases "strptime s f") (auto intro: error.exhaust)

lemma try_formats_match:
  assumes f: "f \<in> set fmts" and ok: "strptime s f = Inr dt"
  shows "try_formats s fmts = Some (strftime dt)"
proof -
  let ?f0 = "fmt_date @ fmt_HM" and ?f1 = "fmt_date @ fmt_HMS"
    and ?f2 = "fmt_date @ fmt_HMS @ [Lit CHR ''.'', Dir Dir_f]"
  from f consider "f = ?f0" | "f = ?f1" | "f = ?f2"
    by (auto simp add: fmts_def)
  then show ?thesis
  proof cases
    case 1
    with ok show ?thesis by (simp add: fmts_def)
  next
    case 2
    have "strptime s ?f0 = Inl ValueError"
    proof (rule strptime_not_Inr, rule allI, rule notI)
      fix d assume "strptime s ?f0 = Inr d"
      from count_HM [OF this] count_HMS(1) [OF ok [unfolded 2]] show False by simp
    qed
    with ok 2 show ?thesis by (simp add: fmts_def)
  next
    case 3
    have "strptime s ?f0 = Inl ValueError"
    proof (rule strptime_not_Inr, rule allI, rule notI)
      fix d assume "strptime s ?f0 = Inr d"
      from count_HM [OF this] count_HMSf(1) [OF ok [unfolded 3]] show False by simp
    qed
    moreover have "strptime s ?f1 = Inl ValueError"
    proof (rule strptime_not_Inr, rule allI, rule notI)
      fix d assume "strptime s ?f1 = Inr d"
      from count_HMS(2) [OF this] count_HMSf(2) [OF ok [unfolded 3]] show False by simp
    qed
    ultimately show ?thesis
      using ok 3 by (simp add: fmts_def)
  qed
qed

lemma try_formats_None:
  "try_formats s fs = None \<longleftrightarrow> (\<forall>f \<in> set fs. strptime s f = Inl ValueError)"
proof (induction fs)
  case Nil
  then show ?case by simp
next
  case (Cons f fs)
  show ?case
  proof (cases "strptime s f")
    case (Inl e)
    with Cons show ?thesis by (cases e) simp
  next
    case (Inr dt)
    then show ?thesis by simp
  qed
qed

lemma strptime_not_a_date:
  "strptime ''not-a-date'' (fmt_date @ ts) = Inl ValueError"
  by (simp add: strptime_def fmt_date_def is_digit_def in_range_def)

lemma prep_not_a_date:
  "replace CHR ''T'' CHR '' '' (strip ''not-a-date'') = ''not-a-date''"
  by (simp add: replace_def strip_def is_space_def)

lemma strptime_empty: "f \<in> set fmts \<Longrightarrow> strptime [] f = Inl ValueError"
  by (auto simp add: fmts_def strptime_def fmt_date_def)

lemma prep_empty: "replace CHR ''T'' CHR '' '' (strip []) = []"
  by (simp add: replace_def strip_def)

lemma colon_strptime:
  "strptime '':'' fmt_HM = Inl ValueError" "strptime '':'' fmt_HMS = Inl ValueError"
  "strptime ''00:00'' fmt_HM = Inr defaults"
  by (simp_all add: strptime_def fmt_HM_def fmt_HMS_def char_class_defs int_of_def
      defaults_def valid_datetime_def days_in_month_def)

lemma zfill_empty: "zfill 2 [] = ''00''"
  by (simp add: zfill_def replicate_small)

section \<open>Properties of the time parser\<close>

lemma strip_simple:
  "strip [] = []" "strip ''25:99'' = ''25:99''" "strip ''8:50'' = ''8:50''"
  "strip ''08:50'' = ''08:50''" "strip ''08:50:00'' = ''08:50:00''"
  by (simp_all add: strip_def is_space_def)

lemma parse_rejects_examples:
  "parse_hhmm_or_hhmmss (Some ''25:99'') = Inl ValueError"
  "parse_hhmm_or_hhmmss (Some []) = Inl ValueError"
  "parse_hhmm_or_hhmmss None = Inl ValueError"
proof -
  have a: "strptime ''25:99'' fmt_HM = Inl ValueError" "strptime ''25:99'' fmt_HMS = Inl ValueError"
    "strptime [] fmt_HM = Inl ValueError" "strptime [] fmt_HMS = Inl ValueError"
    by (simp_all add: strptime_def fmt_HM_def fmt_HMS_def char_class_defs)
  have b: "split CHR '':'' ''25:99'' = [''25'', ''99'']" "zfill 2 ''25'' = ''25''"
    "zfill 2 ''99'' = ''99''"
    by (simp_all add: zfill_def)
  show "parse_hhmm_or_hhmmss (Some ''25:99'') = Inl ValueError"
    by (simp add: parse_hhmm_or_hhmmss_def strip_simple a b)
  show "parse_hhmm_or_hhmmss (Some []) = Inl ValueError"
    by (simp add: parse_hhmm_or_hhmmss_def strip_simple a)
  show "parse_hhmm_or_hhmmss None = Inl ValueError"
    by (simp add: parse_hhmm_or_hhmmss_def strip_simple a)
qed

lemma parse_equal_forms:
  "parse_hhmm_or_hhmmss (Some ''8:50'') = Inr (hm 8 50)"
  "parse_hhmm_or_hhmmss (Some ''08:50'') = Inr (hm 8 50)"
  "parse_hhmm_or_hhmmss (Some ''08:50:00'') = Inr (hm 8 50)"
proof -
  have a: "strptime ''8:50'' fmt_HM = Inr (defaults\<lparr>hour := 8, minute := 50\<rparr>)"
    "strptime ''08:50'' fmt_HM = Inr (defaults\<lparr>hour := 8, minute := 50\<rparr>)"
    "strptime ''08:50:00'' fmt_HM = Inl ValueError"
    "strptime ''08:50:00'' fmt_HMS = Inr (defaults\<lparr>hour := 8, minute := 50\<rparr>)"
    by (simp_all add: strptime_def fmt_HM_def fmt_HMS_def char_class_defs int_of_def
        defaults_def valid_datetime_def days_in_month_def)
  have t: "time_of (defaults\<lparr>hour := 8, minute := 50\<rparr>) = hm 8 50"
    by (simp add: time_of_def defaults_def hm_def)
  show "parse_hhmm_or_hhmmss (Some ''8:50'') = Inr (hm 8 50)"
    "parse_hhmm_or_hhmmss (Some ''08:50'') = Inr (hm 8 50)"
    "parse_hhmm_or_hhmmss (Some ''08:50:00'') = Inr (hm 8 50)"
    by (simp_all add: parse_hhmm_or_hhmmss_def strip_simple a t)
qed

lemma parse_accepts_shapes:
  assumes "strptime (strip s) fmt_HM = Inr dt \<or> strptime (strip s) fmt_HMS = Inr dt"
  shows "\<exists>t. parse_hhmm_or_hhmmss (Some s) = Inr t"
proof (cases "strptime (strip s) fmt_HM")
  case (Inr d)
  then show ?thesis by (simp add: parse_hhmm_or_hhmmss_def)
next
  case (Inl e)
  with assms have "strptime (strip s) fmt_HMS = Inr dt" by simp
  with Inl show ?thesis by (cases e) (simp add: parse_hhmm_or_hhmmss_def)
qed

text \<open>
  C7. The specification asks \<open>_parse_hhmm_or_hhmmss\<close> for a format error on every text
  that, once trimmed, is not a time of the form hour:minute or hour:minute:second. The
  function accepts more than that: a text with one colon and an empty hour or minute
  reaches the two-part branch, where \<open>zfill(2)\<close> turns the empty part into \<open>00\<close>. The
  text \<open>":"\<close> is parsed as midnight (likewise \<open>"8:"\<close> as 08:00 and \<open>":5"\<close> as 00:05).
\<close>

theorem parse_accepts_missing_components:
  "parse_hhmm_or_hhmmss (Some '':'') = Inr \<lparr>hour = 0, minute = 0, second = 0, microsecond = 0\<rparr>"
proof -
  have "strip '':'' = '':''"
    by (simp add: strip_def is_space_def)
  moreover have "split CHR '':'' '':'' = [[], []]"
    by simp
  moreover have "time_of defaults = \<lparr>hour = 0, minute = 0, second = 0, microsecond = 0\<rparr>"
    by (simp add: time_of_def defaults_def)
  ultimately show ?thesis
    by (simp add: parse_hhmm_or_hhmmss_def colon_strptime zfill_empty)
qed

section \<open>Properties of timestamp normalisation\<close>

lemma normalize_ts_canonical_from_1000:
  assumes f: "f \<in> set fmts"
    and ok: "strptime (replace CHR ''T'' CHR '' '' (strip ts_input)) f = Inr dt"
    and y1: "1000 \<le> year dt"
  shows "normalize_ts (Some ts_input) = Some (strftime dt)"
    and "is_canonical (strftime dt)"
    and "strptime (strftime dt) (fmt_date @ fmt_HMS) = Inr (dt\<lparr>microsecond := 0\<rparr>)"
proof -
  have "ts_input \<noteq> []"
    using ok strptime_empty [OF f] by (auto simp add: prep_empty)
  then show "normalize_ts (Some ts_input) = Some (strftime dt)"
    using try_formats_match [OF f ok] by (simp add: normalize_ts_def)
  have v: "valid_datetime dt"
    using ok by (rule strptime_valid)
  show "is_canonical (strftime dt)"
    using v y1 by (rule strftime_is_canonical)
  show "strptime (strftime dt) (fmt_date @ fmt_HMS) = Inr (dt\<lparr>microsecond := 0\<rparr>)"
    using v y1 by (rule strptime_strftime_HMS)
qed

lemma year_999:
  "strptime ''0999-01-01 00:00'' (fmt_date @ fmt_HM)
   = Inr \<lparr>hour = 0, minute = 0, second = 0, microsecond = 0, year = 999, month = 1, day = 1\<rparr>"
  "strftime \<lparr>hour = 0, minute = 0, second = 0, microsecond = 0, year = 999, month = 1, day = 1\<rparr>
   = ''999-01-01 00:00:00''"
  "replace CHR ''T'' CHR '' '' (strip ''0999-01-01 00:00'') = ''0999-01-01 00:00''"
proof -
  show "strptime ''0999-01-01 00:00'' (fmt_date @ fmt_HM)
   = Inr \<lparr>hour = 0, minute = 0, second = 0, microsecond = 0, year = 999, month = 1, day = 1\<rparr>"
    by (simp add: strptime_def fmt_date_def fmt_HM_def char_class_defs spaces_def int_of_def
        defaults_def valid_datetime_def days_in_month_def)
  show "strftime \<lparr>hour = 0, minute = 0, second = 0, microsecond = 0, year = 999, month = 1, day = 1\<rparr>
   = ''999-01-01 00:00:00''"
    by (simp add: strftime_def pad_def dec.simps digit_chr_def replicate_small)
  show "replace CHR ''T'' CHR '' '' (strip ''0999-01-01 00:00'') = ''0999-01-01 00:00''"
    by (simp add: replace_def strip_def is_space_def)
qed

lemma normalize_year_999:
  "normalize_ts (Some ''0999-01-01 00:00'') = Some ''999-01-01 00:00:00''"
  by (simp add: normalize_ts_def fmts_def year_999 del: One_nat_def)

lemma normalize_three_digit_year:
  "normalize_ts (Some ''999-01-01 00:00:00'') = None"
proof -
  have p: "replace CHR ''T'' CHR '' '' (strip ''999-01-01 00:00:00'') = ''999-01-01 00:00:00''"
    by (simp add: replace_def strip_def is_space_def)
  have a: "strptime ''999-01-01 00:00:00'' (fmt_date @ ts) = Inl ValueError" for ts
    by (simp add: strptime_def fmt_date_def is_digit_def in_range_def)
  show ?thesis
    by (simp add: normalize_ts_def p fmts_def a)
qed

text \<open>
  C8. The specification asks for the canonical text \<open>YYYY-MM-DD HH:MM:SS\<close> whenever one of
  the three formats parses the input. The function visibly aims at it and reaches it for
  the years from 1000 on (lemma \<open>normalize_ts_canonical_from_1000\<close>, which also shows that
  the fraction is discarded, and the two examples of the specification). For the years 1
  to 999 it does not: \<open>"0999-01-01 00:00"\<close> is parsed by the first format, and the result
  is \<open>"999-01-01 00:00:00"\<close>, eighteen characters with a three-digit year, which is not of
  the canonical form.
\<close>

theorem normalize_ts_year_not_padded:
  "strptime (replace CHR ''T'' CHR '' '' (strip ''0999-01-01 00:00'')) (fmts ! 0)
     = Inr \<lparr>hour = 0, minute = 0, second = 0, microsecond = 0, year = 999, month = 1, day = 1\<rparr>
   \<and> normalize_ts (Some ''0999-01-01 00:00'') = Some ''999-01-01 00:00:00''
   \<and> \<not> is_canonical ''999-01-01 00:00:00''"
proof -
  have "\<not> is_canonical ''999-01-01 00:00:00''"
    by (simp add: is_canonical_def is_digit_def in_range_def)
  then show ?thesis
    by (simp add: normalize_year_999 year_999 fmts_nth)
qed

text \<open>
  C9. \<open>normalize_ts\<close> returns the absence value on an absent input, on the empty text and
  on every text that none of the three formats parses, such as \<open>"not-a-date"\<close>; and these
  are the only inputs on which it does so. The function is total: the errors of
  \<open>strptime\<close> are all caught, so every outcome is a value.
\<close>

theorem normalize_ts_soft_fail:
  "normalize_ts None = None
   \<and> normalize_ts (Some []) = None
   \<and> (normalize_ts (Some s) = None \<longleftrightarrow>
        s = [] \<or> (\<forall>f \<in> set fmts. strptime (replace CHR ''T'' CHR '' '' (strip s)) f = Inl ValueError))
   \<and> normalize_ts (Some ''not-a-date'') = None"
proof -
  have "normalize_ts (Some ''not-a-date'') = None"
    by (simp add: normalize_ts_def prep_not_a_date try_formats_None fmts_def
        strptime_not_a_date)
  then show ?thesis
    by (simp add: normalize_ts_def try_formats_None)
qed

theorem normalize_ts_soft_fail_witness:
  "strptime (replace CHR ''T'' CHR '' '' (strip ''2025-02-30T08:50'')) (fmts ! 0) = Inl ValueError
   \<and> strptime (replace CHR ''T'' CHR '' '' (strip ''2025-02-30T08:50'')) (fmts ! 1) = Inl ValueError
   \<and> strptime (replace CHR ''T'' CHR '' '' (strip ''2025-02-30T08:50'')) (fmts ! 2) = Inl ValueError
   \<and> normalize_ts (Some ''2025-02-30T08:50'') = None"
proof -
  have p: "replace CHR ''T'' CHR '' '' (strip ''2025-02-30T08:50'') = ''2025-02-30 08:50''"
    by (simp add: replace_def strip_def is_space_def)
  have a: "strptime ''2025-02-30 08:50'' (fmt_date @ fmt_HM) = Inl ValueError"
    "strptime ''2025-02-30 08:50'' (fmt_date @ fmt_HMS) = Inl ValueError"
    "strptime ''2025-02-30 08:50'' (fmt_date @ fmt_HMS @ [Lit CHR ''.'', Dir Dir_f]) = Inl ValueError"
    by (simp_all add: strptime_def fmt_date_def fmt_HM_def fmt_HMS_def char_class_defs
        spaces_def int_of_def defaults_def valid_datetime_def days_in_month_def is_leap_def)
  have "\<forall>f \<in> set fmts. strptime (replace CHR ''T'' CHR '' '' (strip ''2025-02-30T08:50'')) f
          = Inl ValueError"
    by (simp add: p fmts_def a)
  with normalize_ts_soft_fail [of "''2025-02-30T08:50''"] show ?thesis
    by (simp add: fmts_nth p a)
qed

lemma normalize_ts_idempotent_from_1000:
  assumes "normalize_ts x = None
           \<or> (\<exists>dt. valid_datetime dt \<and> 1000 \<le> year dt \<and> normalize_ts x = Some (strftime dt))"
  shows "normalize_ts (normalize_ts x) = normalize_ts x"
  using assms
proof
  assume "normalize_ts x = None"
  then show ?thesis by (simp add: normalize_ts_def)
next
  assume "\<exists>dt. valid_datetime dt \<and> 1000 \<le> year dt \<and> normalize_ts x = Some (strftime dt)"
  then obtain dt where "valid_datetime dt" and "1000 \<le> year dt"
    and "normalize_ts x = Some (strftime dt)"
    by blast
  then show ?thesis by (simp add: normalize_ts_strftime)
qed

text \<open>
  C10. The specification asks that normalising twice gives what normalising once gives.
  That holds when the first result is absent or has a year from 1000 on (lemma
  \<open>normalize_ts_idempotent_from_1000\<close>). It fails for the years 1 to 999:
  \<open>"0999-01-01 00:00"\<close> is normalised to \<open>"999-01-01 00:00:00"\<close>, and no format parses that
  text again, since \<open>%Y\<close> reads exactly four digits; the second result is the absence value.
\<close>

theorem normalize_ts_not_idempotent:
  "normalize_ts (Some ''0999-01-01 00:00'') = Some ''999-01-01 00:00:00''
   \<and> normalize_ts (normalize_ts (Some ''0999-01-01 00:00'')) = None
   \<and> normalize_ts (normalize_ts (Some ''0999-01-01 00:00'')) \<noteq> normalize_ts (Some ''0999-01-01 00:00'')"
  by (simp add: normalize_year_999 normalize_three_digit_year)

end
